theory Spec2Isabelle
  imports Main
begin

section \<open>Operations (\<^verbatim>\<open>Retain\<close>, \<^verbatim>\<open>Insert\<close>, \<^verbatim>\<open>Delete\<close>)\<close>

text \<open>
  The three classes of \<^verbatim>\<open>text_operation.py\<close> are one tagged union. A document is a
  Python \<^verbatim>\<open>str\<close>, a sequence of code points that the code only measures, slices and
  concatenates; its element type is the parameter \<open>'c\<close> (the concrete scenarios use
  \<^typ>\<open>char\<close>). A count is a \<^typ>\<open>nat\<close>: every class reports its count through
  \<^verbatim>\<open>__len__\<close>, and Python's \<^verbatim>\<open>len\<close> rejects a negative \<^verbatim>\<open>__len__\<close> with
  \<^verbatim>\<open>ValueError\<close>, so the algorithms below never get past an operation with a negative
  count; counts are taken to fit Python's index type, as the length of a document does.
  Zero counts and empty texts are values of the type, as they are of the classes.
\<close>

datatype 'c op = Retain nat | Insert "'c list" | Delete nat

text \<open>\<^verbatim>\<open>__len__\<close> of the three classes.\<close>

fun len :: "'c op \<Rightarrow> nat" where
  "len (Retain n) = n"
| "len (Insert s) = length s"
| "len (Delete n) = n"

text \<open>\<^verbatim>\<open>len_difference\<close> of the three classes; a Python \<^verbatim>\<open>int\<close>, negative for a delete.\<close>

fun op_len_difference :: "'c op \<Rightarrow> int" where
  "op_len_difference (Retain n) = 0"
| "op_len_difference (Insert s) = int (len (Insert s :: 'c op))"
| "op_len_difference (Delete n) = - int (len (Delete n :: 'c op))"

text \<open>
  \<^verbatim>\<open>shorten\<close>: \<^verbatim>\<open>Retain(self.n - n)\<close>, \<^verbatim>\<open>Insert(self.str[n:])\<close>, \<^verbatim>\<open>Delete(self.n - n)\<close>.
  Its only caller, \<^verbatim>\<open>_shorten_ops\<close>, passes an \<open>n\<close> below the operation's length, where
  the subtraction of \<^typ>\<open>nat\<close> is the subtraction of Python.
\<close>

fun shorten :: "'c op \<Rightarrow> nat \<Rightarrow> 'c op" where
  "shorten (Retain m) n = Retain (m - n)"
| "shorten (Insert s) n = Insert (drop n s)"
| "shorten (Delete m) n = Delete (m - n)"

text \<open>
  \<^verbatim>\<open>merge\<close>: its only caller, \<^verbatim>\<open>append\<close>, passes two operations of the same class, and
  these are the three equations the classes give for them.
\<close>

fun merge :: "'c op \<Rightarrow> 'c op \<Rightarrow> 'c op" where
  "merge (Retain n) (Retain m) = Retain (n + m)"
| "merge (Insert s) (Insert t) = Insert (s @ t)"
| "merge (Delete n) (Delete m) = Delete (n + m)"

text \<open>The test \<^verbatim>\<open>x.__class__ == y.__class__\<close>.\<close>

fun same_class :: "'c op \<Rightarrow> 'c op \<Rightarrow> bool" where
  "same_class (Retain n) (Retain m) = True"
| "same_class (Insert s) (Insert t) = True"
| "same_class (Delete n) (Delete m) = True"
| "same_class x y = False"

text \<open>The tests \<^verbatim>\<open>isinstance(x, Insert)\<close> and \<^verbatim>\<open>isinstance(x, Delete)\<close>.\<close>

fun is_Insert :: "'c op \<Rightarrow> bool" where
  "is_Insert (Insert s) = True"
| "is_Insert x = False"

fun is_Delete :: "'c op \<Rightarrow> bool" where
  "is_Delete (Delete n) = True"
| "is_Delete x = False"

text \<open>\<^verbatim>\<open>_shorten_ops\<close>: \<open>None\<close> stands for Python's \<^verbatim>\<open>None\<close>.\<close>

definition shorten_ops :: "'c op \<Rightarrow> 'c op \<Rightarrow> 'c op option \<times> 'c op option" where
  "shorten_ops a b =
     (let len_a = len a; len_b = len b
      in if len_a = len_b then (None, None)
         else if len_a > len_b then (Some (shorten a len_b), None)
         else (None, Some (shorten b len_a)))"

section \<open>\<^verbatim>\<open>TextOperation\<close>\<close>

text \<open>
  A \<^verbatim>\<open>TextOperation\<close> holds one field, the list \<^verbatim>\<open>ops\<close>; the constructor copies any list
  it is given, so a text operation is a list of operations. The list is mutated only by
  \<^verbatim>\<open>append\<close>, on an object the calling method has just made, so the new list is returned.
\<close>

type_synonym 'c text_operation = "'c op list"

text \<open>The two exception classes the code raises, with the four messages.\<close>

datatype message =
    Operation_too_long     \<comment> \<open>"Cannot apply operation: operation is too long."\<close>
  | Operation_too_short    \<comment> \<open>"Cannot apply operation: operation is too short."\<close>
  | First_too_short        \<comment> \<open>"Cannot compose operations: first operation is too short"\<close>
  | First_too_long         \<comment> \<open>"Cannot compose operations: first operation is too long"\<close>

datatype error =
    Exception message                     \<comment> \<open>a plain \<^verbatim>\<open>Exception\<close>\<close>
  | IncompatibleOperationError message    \<comment> \<open>the subclass the module defines\<close>
  | TypeError                             \<comment> \<open>\<^verbatim>\<open>len(None)\<close>, raised by the interpreter\<close>

text \<open>\<^verbatim>\<open>TextOperation.len_difference\<close>.\<close>

definition len_difference :: "'c text_operation \<Rightarrow> int" where
  "len_difference ops = sum_list (map op_len_difference ops)"

text \<open>
  \<^verbatim>\<open>TextOperation.append\<close>: a zero-length operation is dropped; an operation of the class
  of the last element is merged into it (\<^verbatim>\<open>self.ops.pop().merge(op)\<close>).
\<close>

definition append_op :: "'c text_operation \<Rightarrow> 'c op \<Rightarrow> 'c text_operation" where
  "append_op ops op =
     (if len op = 0 then ops
      else if length ops > 0 \<and> same_class (last ops) op
           then butlast ops @ [merge (last ops) op]
           else ops @ [op])"

text \<open>
  The slice \<^verbatim>\<open>doc[i:j]\<close> for \<open>0 \<le> i \<le> j\<close>: Python clamps both ends to the length of
  the string, as \<^const>\<open>take\<close> and \<^const>\<open>drop\<close> do.
\<close>

definition slice :: "'c list \<Rightarrow> nat \<Rightarrow> nat \<Rightarrow> 'c list" where
  "slice doc i j = take (j - i) (drop i doc)"

text \<open>
  \<^verbatim>\<open>TextOperation.__call__\<close>: the \<^verbatim>\<open>for\<close> loop over the operations, with its state
  \<open>i\<close> and \<open>parts\<close>, then the final check. The too-long check of the \<^verbatim>\<open>Retain\<close> branch
  raises a plain \<^verbatim>\<open>Exception\<close> (line 118), the one of the \<^verbatim>\<open>Delete\<close> branch an
  \<^verbatim>\<open>IncompatibleOperationError\<close> (line 125).
\<close>

fun call_loop :: "'c text_operation \<Rightarrow> 'c list \<Rightarrow> nat \<Rightarrow> 'c list list \<Rightarrow> error + nat \<times> 'c list list" where
  "call_loop [] doc i parts = Inr (i, parts)"
| "call_loop (Retain n # ops) doc i parts =
     (if i + len (Retain n :: 'c op) > length doc then Inl (Exception Operation_too_long)
      else call_loop ops doc (i + len (Retain n :: 'c op))
             (parts @ [slice doc i (i + len (Retain n :: 'c op))]))"
| "call_loop (Insert s # ops) doc i parts = call_loop ops doc i (parts @ [s])"
| "call_loop (Delete n # ops) doc i parts =
     (if i + len (Delete n :: 'c op) > length doc then Inl (IncompatibleOperationError Operation_too_long)
      else call_loop ops doc (i + len (Delete n :: 'c op)) parts)"

definition call :: "'c text_operation \<Rightarrow> 'c list \<Rightarrow> error + 'c list" where
  "call ops doc =
     (case call_loop ops doc 0 [] of
        Inl e \<Rightarrow> Inl e
      | Inr (i, parts) \<Rightarrow>
          if i \<noteq> length doc then Inl (IncompatibleOperationError Operation_too_short)
          else Inr (concat parts))"

text \<open>
  \<^verbatim>\<open>TextOperation.invert\<close>: the loop with its state \<open>i\<close> and \<open>inverse\<close> (here
  \<open>result\<close>). No statement of the method raises, and the slice of the \<^verbatim>\<open>Delete\<close> branch is not guarded: it is clamped.
\<close>

fun invert_loop :: "'c text_operation \<Rightarrow> 'c list \<Rightarrow> nat \<Rightarrow> 'c text_operation \<Rightarrow> 'c text_operation" where
  "invert_loop [] doc i result = result"
| "invert_loop (Retain n # ops) doc i result =
     invert_loop ops doc (i + len (Retain n :: 'c op)) (append_op result (Retain n))"
| "invert_loop (Insert s # ops) doc i result =
     invert_loop ops doc i (append_op result (Delete (len (Insert s))))"
| "invert_loop (Delete n # ops) doc i result =
     invert_loop ops doc (i + len (Delete n :: 'c op))
       (append_op result (Insert (slice doc i (i + len (Delete n :: 'c op)))))"

definition invert :: "'c text_operation \<Rightarrow> 'c list \<Rightarrow> error + 'c text_operation" where
  "invert ops doc = Inr (invert_loop ops doc 0 [])"

section \<open>The two co-traversals\<close>

text \<open>\<^verbatim>\<open>next(it, None)\<close> on a list iterator: the element and the advanced iterator.\<close>

fun next_op :: "'a list \<Rightarrow> 'a option \<times> 'a list" where
  "next_op [] = (None, [])"
| "next_op (x # xs) = (Some x, xs)"

text \<open>
  The state of the \<^verbatim>\<open>while True\<close> loop of \<^verbatim>\<open>compose\<close>: \<open>a\<close>, \<open>iter_a\<close>, \<open>b\<close>, \<open>iter_b\<close>
  and \<open>operation\<close>. One run of the loop body either continues with a new state (\<open>Inl\<close>)
  or leaves the loop (\<open>Inr\<close>), by \<^verbatim>\<open>break\<close> with the result or by \<^verbatim>\<open>raise\<close>.
\<close>

type_synonym 'c compose_state =
  "'c op option \<times> 'c op list \<times> 'c op option \<times> 'c op list \<times> 'c text_operation"

fun compose_body :: "'c compose_state \<Rightarrow> 'c compose_state + (error + 'c text_operation)" where
  "compose_body (a0, iter_a0, b0, iter_b0, operation) =
     (let (a, iter_a) = (if a0 = None then next_op iter_a0 else (a0, iter_a0));
          (b, iter_b) = (if b0 = None then next_op iter_b0 else (b0, iter_b0))
      in if a = None \<and> b = None then Inr (Inr operation)
         else case a of
           Some (Delete n) \<Rightarrow> Inl (None, iter_a, b, iter_b, append_op operation (Delete n))
         | _ \<Rightarrow>
          (case b of
             Some (Insert s) \<Rightarrow> Inl (a, iter_a, None, iter_b, append_op operation (Insert s))
           | _ \<Rightarrow>
            (case a of
               None \<Rightarrow> Inr (Inl (IncompatibleOperationError First_too_short))
             | Some x \<Rightarrow>
              (case b of
                 None \<Rightarrow> Inr (Inl (IncompatibleOperationError First_too_long))
               | Some y \<Rightarrow>
                  let min_len = min (len x) (len y);
                      operation' =
                        (case (x, y) of
                           (Retain n, Retain m) \<Rightarrow> append_op operation (Retain min_len)
                         | (Insert s, Retain m) \<Rightarrow> append_op operation (Insert (take min_len s))
                         | (Retain n, Delete m) \<Rightarrow> append_op operation (Delete min_len)
                         | _ \<Rightarrow> operation);
                      (a', b') = shorten_ops x y
                  in Inl (a', iter_a, b', iter_b, operation')))))"

text \<open>What is left of an input: the pending element, if any, and the rest of the iterator.\<close>

fun pending :: "'a option \<Rightarrow> 'a list \<Rightarrow> 'a list" where
  "pending None xs = xs"
| "pending (Some x) xs = x # xs"

fun compose_measure :: "'c compose_state \<Rightarrow> nat" where
  "compose_measure (a, iter_a, b, iter_b, operation) =
     length (pending a iter_a) + length (pending b iter_b)"

lemma shorten_ops_cases:
  "shorten_ops x y = (None, None) \<or> (\<exists>x'. shorten_ops x y = (Some x', None))
   \<or> (\<exists>y'. shorten_ops x y = (None, Some y'))"
  by (simp add: shorten_ops_def Let_def)

lemma compose_body_decreases:
  "compose_body s = Inl s' \<Longrightarrow> compose_measure s' < compose_measure s"
proof -
  obtain a0 ia0 b0 ib0 acc where s: "s = (a0, ia0, b0, ib0, acc)"
    by (cases s) auto
  assume "compose_body s = Inl s'"
  then show ?thesis
    unfolding s
    by (cases a0; cases b0; cases ia0; cases ib0)
       (auto simp: Let_def shorten_ops_def split: op.splits option.splits if_splits prod.splits)
qed

function compose_while :: "'c compose_state \<Rightarrow> error + 'c text_operation" where
  "compose_while s = (case compose_body s of Inl s' \<Rightarrow> compose_while s' | Inr r \<Rightarrow> r)"
  by pat_completeness auto
termination
  by (relation "measure compose_measure") (auto simp: compose_body_decreases)

text \<open>\<^verbatim>\<open>TextOperation.compose\<close>: both iterators fresh, \<open>a = b = None\<close>, an empty result.\<close>

definition compose :: "'c text_operation \<Rightarrow> 'c text_operation \<Rightarrow> error + 'c text_operation" where
  "compose self other = compose_while (None, self, None, other, [])"

declare compose_while.simps [simp del] compose_body.simps [simp del]

text \<open>
  The state of the loop of \<^verbatim>\<open>transform\<close>: \<open>a\<close>, \<open>iter_a\<close>, \<open>b\<close>, \<open>iter_b\<close>, \<open>a_prime\<close>
  and \<open>b_prime\<close>. The loop has no length check of its own: when one input is exhausted
  and the other holds a \<^verbatim>\<open>Retain\<close> or a \<^verbatim>\<open>Delete\<close>, \<^verbatim>\<open>min(len(a), len(b))\<close> calls
  \<^verbatim>\<open>len(None)\<close>, which raises \<^verbatim>\<open>TypeError\<close>.
\<close>

type_synonym 'c transform_state =
  "'c op option \<times> 'c op list \<times> 'c op option \<times> 'c op list \<times> 'c text_operation \<times> 'c text_operation"

fun transform_body ::
  "'c transform_state \<Rightarrow> 'c transform_state + (error + 'c text_operation \<times> 'c text_operation)" where
  "transform_body (a0, iter_a0, b0, iter_b0, a_prime, b_prime) =
     (let (a, iter_a) = (if a0 = None then next_op iter_a0 else (a0, iter_a0));
          (b, iter_b) = (if b0 = None then next_op iter_b0 else (b0, iter_b0))
      in if a = None \<and> b = None then Inr (Inr (a_prime, b_prime))
         else case a of
           Some (Insert s) \<Rightarrow>
             Inl (None, iter_a, b, iter_b,
                  append_op a_prime (Insert s), append_op b_prime (Retain (len (Insert s))))
         | _ \<Rightarrow>
          (case b of
             Some (Insert s) \<Rightarrow>
               Inl (a, iter_a, None, iter_b,
                    append_op a_prime (Retain (len (Insert s))), append_op b_prime (Insert s))
           | _ \<Rightarrow>
            (case a of
               None \<Rightarrow> Inr (Inl TypeError)
             | Some x \<Rightarrow>
              (case b of
                 None \<Rightarrow> Inr (Inl TypeError)
               | Some y \<Rightarrow>
                  let min_len = min (len x) (len y);
                      (a_prime', b_prime') =
                        (case (x, y) of
                           (Retain n, Retain m) \<Rightarrow>
                             (append_op a_prime (Retain min_len), append_op b_prime (Retain min_len))
                         | (Delete n, Retain m) \<Rightarrow> (append_op a_prime (Delete min_len), b_prime)
                         | (Retain n, Delete m) \<Rightarrow> (a_prime, append_op b_prime (Delete min_len))
                         | _ \<Rightarrow> (a_prime, b_prime));
                      (a', b') = shorten_ops x y
                  in Inl (a', iter_a, b', iter_b, a_prime', b_prime')))))"

fun transform_measure :: "'c transform_state \<Rightarrow> nat" where
  "transform_measure (a, iter_a, b, iter_b, a_prime, b_prime) =
     length (pending a iter_a) + length (pending b iter_b)"

lemma transform_body_decreases:
  "transform_body s = Inl s' \<Longrightarrow> transform_measure s' < transform_measure s"
proof -
  obtain a0 ia0 b0 ib0 acc1 acc2 where s: "s = (a0, ia0, b0, ib0, acc1, acc2)"
    by (cases s) auto
  assume "transform_body s = Inl s'"
  then show ?thesis
    unfolding s
    by (cases a0; cases b0; cases ia0; cases ib0)
       (auto simp: Let_def shorten_ops_def split: op.splits option.splits if_splits prod.splits)
qed

function transform_while ::
  "'c transform_state \<Rightarrow> error + 'c text_operation \<times> 'c text_operation" where
  "transform_while s = (case transform_body s of Inl s' \<Rightarrow> transform_while s' | Inr r \<Rightarrow> r)"
  by pat_completeness auto
termination
  by (relation "measure transform_measure") (auto simp: transform_body_decreases)

text \<open>\<^verbatim>\<open>TextOperation.transform\<close> (a static method).\<close>

definition transform ::
  "'c text_operation \<Rightarrow> 'c text_operation \<Rightarrow> error + 'c text_operation \<times> 'c text_operation" where
  "transform operation_a operation_b = transform_while (None, operation_a, None, operation_b, [], [])"

declare transform_while.simps [simp del] transform_body.simps [simp del]

section \<open>The vocabulary of the claims\<close>

text \<open>
  The length of document a sequence reads (its \<^verbatim>\<open>Retain\<close> and \<^verbatim>\<open>Delete\<close> lengths) and
  the length it writes (its \<^verbatim>\<open>Retain\<close> and \<^verbatim>\<open>Insert\<close> lengths). A sequence is valid
  against a document when it reads exactly the document.
\<close>

fun base_len :: "'c text_operation \<Rightarrow> nat" where
  "base_len [] = 0"
| "base_len (Retain n # ops) = n + base_len ops"
| "base_len (Insert s # ops) = base_len ops"
| "base_len (Delete n # ops) = n + base_len ops"

fun target_len :: "'c text_operation \<Rightarrow> nat" where
  "target_len [] = 0"
| "target_len (Retain n # ops) = n + target_len ops"
| "target_len (Insert s # ops) = length s + target_len ops"
| "target_len (Delete n # ops) = target_len ops"

definition valid :: "'c text_operation \<Rightarrow> 'c list \<Rightarrow> bool" where
  "valid ops doc \<longleftrightarrow> base_len ops = length doc"

text \<open>
  The invariant of the data model: no element of length zero. The constructor of
  \<^verbatim>\<open>TextOperation\<close> does not check it; \<^verbatim>\<open>append\<close> keeps it.
\<close>

definition nonzero :: "'c text_operation \<Rightarrow> bool" where
  "nonzero ops \<longleftrightarrow> list_all (\<lambda>op. 0 < len op) ops"

text \<open>The normal form: no two adjacent elements of the same class.\<close>

fun normal_form :: "'c text_operation \<Rightarrow> bool" where
  "normal_form (x # y # ops) = (\<not> same_class x y \<and> normal_form (y # ops))"
| "normal_form ops = True"

text \<open>Whether the first element of a sequence is an \<^verbatim>\<open>Insert\<close>.\<close>

fun starts_with_Insert :: "'c text_operation \<Rightarrow> bool" where
  "starts_with_Insert (Insert s # ops) = True"
| "starts_with_Insert ops = False"

text \<open>
  The inverse of one operation read at the cursor \<open>i\<close> of the document: a \<^verbatim>\<open>Retain\<close> is
  kept, an \<^verbatim>\<open>Insert\<close> becomes the \<^verbatim>\<open>Delete\<close> of its length, a \<^verbatim>\<open>Delete(n)\<close> becomes the
  \<^verbatim>\<open>Insert\<close> of the slice \<^verbatim>\<open>doc[i:i+n]\<close>. The cursor before the \<open>k\<close>-th operation of a
  sequence is the sum of the \<^verbatim>\<open>Retain\<close> and \<^verbatim>\<open>Delete\<close> lengths before it.
\<close>

fun inverse_op :: "'c list \<Rightarrow> nat \<Rightarrow> 'c op \<Rightarrow> 'c op" where
  "inverse_op doc i (Retain n) = Retain n"
| "inverse_op doc i (Insert s) = Delete (length s)"
| "inverse_op doc i (Delete n) = Insert (slice doc i (i + n))"

definition cursor :: "'c text_operation \<Rightarrow> nat \<Rightarrow> nat" where
  "cursor ops k = base_len (take k ops)"

text \<open>
  The state at the head of the \<open>k\<close>-th run of the loop body, if the loop gets there, and
  the states the traversal of two inputs reaches.
\<close>

fun compose_run :: "nat \<Rightarrow> 'c compose_state \<Rightarrow> 'c compose_state option" where
  "compose_run 0 s = Some s"
| "compose_run (Suc k) s = (case compose_body s of Inl s' \<Rightarrow> compose_run k s' | Inr r \<Rightarrow> None)"

definition compose_reaches :: "'c text_operation \<Rightarrow> 'c text_operation \<Rightarrow> 'c compose_state \<Rightarrow> bool" where
  "compose_reaches A B s \<longleftrightarrow> (\<exists>k. compose_run k (None, A, None, B, []) = Some s)"

text \<open>What is left of each input in a state at the head of the loop body.\<close>

fun rest_a :: "'c compose_state \<Rightarrow> 'c op list" where
  "rest_a (a, iter_a, b, iter_b, operation) = pending a iter_a"

fun rest_b :: "'c compose_state \<Rightarrow> 'c op list" where
  "rest_b (a, iter_a, b, iter_b, operation) = pending b iter_b"

section \<open>Means of proof\<close>

text \<open>
  The text a sequence writes when it reads a document from the left. It is a means of
  proof: \<open>call_Inr_iff\<close> below shows that it is what \<open>call\<close> returns.
\<close>

fun effect :: "'c text_operation \<Rightarrow> 'c list \<Rightarrow> 'c list" where
  "effect [] doc = []"
| "effect (Retain n # ops) doc = take n doc @ effect ops (drop n doc)"
| "effect (Insert s # ops) doc = s @ effect ops doc"
| "effect (Delete n # ops) doc = effect ops (drop n doc)"

text \<open>Mapping over the result of a call that may have raised.\<close>

definition map_result :: "('a \<Rightarrow> 'b) \<Rightarrow> error + 'a \<Rightarrow> error + 'b" where
  "map_result f r = (case r of Inl e \<Rightarrow> Inl e | Inr v \<Rightarrow> Inr (f v))"

lemma map_result_simps [simp]:
  "map_result f (Inl e) = Inl e"
  "map_result f (Inr v) = Inr (f v)"
  by (simp_all add: map_result_def)

lemma map_result_Inr_iff [simp]: "map_result f R = Inr v \<longleftrightarrow> (\<exists>r. R = Inr r \<and> v = f r)"
  by (cases R) auto

lemma map_result_Inl_iff [simp]: "map_result f R = Inl e \<longleftrightarrow> R = Inl e"
  by (cases R) auto

text \<open>
  The operations \<open>invert\<close> appends, in order, when it reads the document from the left;
  \<open>invert_eq\<close> shows that \<open>invert\<close> returns them merged by \<open>append_op\<close>.
\<close>

fun invert_emit :: "'c text_operation \<Rightarrow> 'c list \<Rightarrow> 'c text_operation" where
  "invert_emit [] doc = []"
| "invert_emit (Retain n # ops) doc = Retain n # invert_emit ops (drop n doc)"
| "invert_emit (Insert s # ops) doc = Delete (length s) # invert_emit ops doc"
| "invert_emit (Delete n # ops) doc = Insert (take n doc) # invert_emit ops (drop n doc)"

text \<open>
  What the aligned branch of \<open>compose\<close> appends for the pair \<open>a\<close>, \<open>b\<close>, and the operations
  the whole traversal appends, in order, as a recursion on what is left of the two inputs.
  \<open>compose_eq\<close> below shows that \<open>compose\<close> returns these operations merged by
  \<open>append_op\<close>, and raises when they raise.
\<close>

fun compose_piece :: "'c op \<Rightarrow> 'c op \<Rightarrow> 'c op list" where
  "compose_piece (Retain n) (Retain m) = [Retain (min n m)]"
| "compose_piece (Insert s) (Retain m) = [Insert (take (min (length s) m) s)]"
| "compose_piece (Retain n) (Delete m) = [Delete (min n m)]"
| "compose_piece x y = []"

fun compose_emit :: "'c op list \<Rightarrow> 'c op list \<Rightarrow> error + 'c op list" where
  "compose_emit [] [] = Inr []"
| "compose_emit [] (y # ys) =
     (if is_Insert y then map_result ((#) y) (compose_emit [] ys)
      else Inl (IncompatibleOperationError First_too_short))"
| "compose_emit (x # xs) [] =
     (if is_Delete x then map_result ((#) x) (compose_emit xs [])
      else Inl (IncompatibleOperationError First_too_long))"
| "compose_emit (x # xs) (y # ys) =
     (if is_Delete x then map_result ((#) x) (compose_emit xs (y # ys))
      else if is_Insert y then map_result ((#) y) (compose_emit (x # xs) ys)
      else map_result ((@) (compose_piece x y))
             (if len x = len y then compose_emit xs ys
              else if len x > len y then compose_emit (shorten x (len y) # xs) ys
              else compose_emit xs (shorten y (len x) # ys)))"

declare compose_emit.simps [simp del]

text \<open>
  What the aligned branch of \<open>transform\<close> appends to \<open>a_prime\<close> for the pair \<open>a\<close>, \<open>b\<close>; it
  appends to \<open>b_prime\<close> what this gives for the pair \<open>b\<close>, \<open>a\<close>. Then the operations the whole
  traversal appends to \<open>a_prime\<close> and to \<open>b_prime\<close>, in order, as a recursion on what is left
  of the two inputs; \<open>transform_eq\<close> below shows that \<open>transform\<close> returns the two lists merged
  by \<open>append_op\<close>, and raises when the recursion does.
\<close>

fun prime_piece :: "'c op \<Rightarrow> 'c op \<Rightarrow> 'c op list" where
  "prime_piece (Retain n) (Retain m) = [Retain (min n m)]"
| "prime_piece (Delete n) (Retain m) = [Delete (min n m)]"
| "prime_piece x y = []"

fun transform_emit :: "'c op list \<Rightarrow> 'c op list \<Rightarrow> error + 'c op list \<times> 'c op list" where
  "transform_emit [] [] = Inr ([], [])"
| "transform_emit [] (y # ys) =
     (if is_Insert y
      then map_result (map_prod ((#) (Retain (len y))) ((#) y)) (transform_emit [] ys)
      else Inl TypeError)"
| "transform_emit (x # xs) [] =
     (if is_Insert x
      then map_result (map_prod ((#) x) ((#) (Retain (len x)))) (transform_emit xs [])
      else Inl TypeError)"
| "transform_emit (x # xs) (y # ys) =
     (if is_Insert x
      then map_result (map_prod ((#) x) ((#) (Retain (len x)))) (transform_emit xs (y # ys))
      else if is_Insert y
      then map_result (map_prod ((#) (Retain (len y))) ((#) y)) (transform_emit (x # xs) ys)
      else map_result (map_prod ((@) (prime_piece x y)) ((@) (prime_piece y x)))
             (if len x = len y then transform_emit xs ys
              else if len x > len y then transform_emit (shorten x (len y) # xs) ys
              else transform_emit xs (shorten y (len x) # ys)))"

declare transform_emit.simps [simp del]

section \<open>Lemmas\<close>

subsection \<open>What \<open>call\<close> returns and raises\<close>

lemma call_loop_ok:
  "i + base_len ops \<le> length doc \<Longrightarrow>
   \<exists>ps. call_loop ops doc i parts = Inr (i + base_len ops, ps)
        \<and> concat ps = concat parts @ effect ops (drop i doc)"
proof (induction ops arbitrary: i parts)
  case Nil
  then show ?case by simp
next
  case (Cons x ops)
  show ?case
  proof (cases x)
    case (Retain n)
    with Cons.prems have "(i + n) + base_len ops \<le> length doc" by simp
    from Cons.IH [OF this, of "parts @ [slice doc i (i + n)]"] Cons.prems Retain
    show ?thesis by (auto simp: slice_def add.commute)
  next
    case (Insert s)
    with Cons.prems have "i + base_len ops \<le> length doc" by simp
    from Cons.IH [OF this, of "parts @ [s]"] Insert
    show ?thesis by auto
  next
    case (Delete n)
    with Cons.prems have "(i + n) + base_len ops \<le> length doc" by simp
    from Cons.IH [OF this, of parts] Cons.prems Delete
    show ?thesis by (auto simp: add.commute)
  qed
qed

lemma call_loop_too_long:
  "i \<le> length doc \<Longrightarrow> length doc < i + base_len ops \<Longrightarrow>
   call_loop ops doc i parts = Inl (Exception Operation_too_long)
   \<or> call_loop ops doc i parts = Inl (IncompatibleOperationError Operation_too_long)"
proof (induction ops arbitrary: i parts)
  case Nil
  then show ?case by simp
next
  case (Cons x ops)
  then show ?case by (cases x) (auto simp: add.assoc)
qed

lemma call_valid: "base_len ops = length doc \<Longrightarrow> call ops doc = Inr (effect ops doc)"
  using call_loop_ok [of 0 ops doc "[]"] by (auto simp: call_def)

lemma call_too_short:
  "base_len ops < length doc \<Longrightarrow> call ops doc = Inl (IncompatibleOperationError Operation_too_short)"
  using call_loop_ok [of 0 ops doc "[]"] by (auto simp: call_def)

lemma call_too_long:
  "length doc < base_len ops \<Longrightarrow>
   call ops doc = Inl (Exception Operation_too_long)
   \<or> call ops doc = Inl (IncompatibleOperationError Operation_too_long)"
  using call_loop_too_long [of 0 doc ops "[]"] by (auto simp: call_def)

lemma call_Inr_iff: "call ops doc = Inr r \<longleftrightarrow> base_len ops = length doc \<and> r = effect ops doc"
proof -
  consider "base_len ops = length doc" | "base_len ops < length doc" | "length doc < base_len ops"
    by linarith
  then show ?thesis
  proof cases
    case 1
    then show ?thesis by (auto simp: call_valid)
  next
    case 2
    then show ?thesis by (auto simp: call_too_short)
  next
    case 3
    with call_too_long [OF 3] show ?thesis by auto
  qed
qed

lemma length_effect: "base_len ops \<le> length doc \<Longrightarrow> length (effect ops doc) = target_len ops"
  by (induction ops doc rule: effect.induct) auto

lemma len_difference_lens: "len_difference ops = int (target_len ops) - int (base_len ops)"
  by (induction ops rule: base_len.induct) (auto simp: len_difference_def)

subsection \<open>Merge-on-append\<close>

lemma base_len_append: "base_len (xs @ ys) = base_len xs + base_len ys"
  by (induction xs rule: base_len.induct) auto

lemma target_len_append: "target_len (xs @ ys) = target_len xs + target_len ys"
  by (induction xs rule: target_len.induct) auto

lemma effect_append: "effect (xs @ ys) doc = effect xs doc @ effect ys (drop (base_len xs) doc)"
  by (induction xs doc rule: effect.induct) (auto simp: add.commute)

lemma len_difference_append: "len_difference (xs @ ys) = len_difference xs + len_difference ys"
  by (simp add: len_difference_def)

lemma same_class_merge:
  "same_class x y \<Longrightarrow>
     base_len [merge x y] = base_len [x, y] \<and> target_len [merge x y] = target_len [x, y]
     \<and> effect [merge x y] doc = effect [x, y] doc
     \<and> len_difference [merge x y] = len_difference [x, y]
     \<and> len (merge x y) = len x + len y
     \<and> same_class z (merge x y) = same_class z x"
  by (cases x; cases y; cases z) (auto simp: take_add len_difference_def add.commute)

lemma len_zero_neutral:
  "len x = 0 \<Longrightarrow>
     base_len [x] = 0 \<and> target_len [x] = 0 \<and> effect [x] doc = [] \<and> len_difference [x] = 0"
  by (cases x) (auto simp: len_difference_def)

lemma append_op_cases:
  obtains (zero) "len op = 0" "append_op ops op = ops"
  | (merge) ys l where "len op \<noteq> 0" "ops = ys @ [l]" "same_class l op" "append_op ops op = ys @ [merge l op]"
  | (new) "len op \<noteq> 0" "ops = [] \<or> \<not> same_class (last ops) op" "append_op ops op = ops @ [op]"
proof (cases "len op = 0")
  case True
  then show ?thesis using zero by (simp add: append_op_def)
next
  case nz: False
  show ?thesis
  proof (cases ops rule: rev_cases)
    case Nil
    then show ?thesis using new nz by (simp add: append_op_def)
  next
    case (snoc ys l)
    then show ?thesis using merge [of ys l] new nz by (cases "same_class l op") (auto simp: append_op_def)
  qed
qed

lemma lens_Cons:
  "base_len (x # xs) = base_len [x] + base_len xs"
  "target_len (x # xs) = target_len [x] + target_len xs"
  "len_difference (x # xs) = len_difference [x] + len_difference xs"
  by (cases x; simp add: len_difference_def)+

lemma base_len_append_op: "base_len (append_op ops op) = base_len ops + base_len [op]"
proof (cases op ops rule: append_op_cases)
  case (merge ys l)
  then show ?thesis
    using same_class_merge [of l op] lens_Cons(1) [of l "[op]"] by (simp add: base_len_append)
qed (simp_all add: base_len_append len_zero_neutral)

lemma target_len_append_op: "target_len (append_op ops op) = target_len ops + target_len [op]"
proof (cases op ops rule: append_op_cases)
  case (merge ys l)
  then show ?thesis
    using same_class_merge [of l op] lens_Cons(2) [of l "[op]"] by (simp add: target_len_append)
qed (simp_all add: target_len_append len_zero_neutral)

lemma len_difference_append_op:
  "len_difference (append_op ops op) = len_difference ops + len_difference [op]"
proof (cases op ops rule: append_op_cases)
  case (merge ys l)
  then show ?thesis
    using same_class_merge [of l op] lens_Cons(3) [of l "[op]"] by (simp add: len_difference_append)
qed (simp_all add: len_difference_append len_zero_neutral)

lemma effect_append_op: "effect (append_op ops op) doc = effect (ops @ [op]) doc"
  by (cases op ops rule: append_op_cases)
     (simp_all add: effect_append len_zero_neutral same_class_merge del: effect.simps)

lemma base_len_foldl_append_op: "base_len (foldl append_op acc raw) = base_len acc + base_len raw"
proof (induction raw arbitrary: acc)
  case (Cons x raw)
  then show ?case using lens_Cons(1) [of x raw] by (simp add: base_len_append_op)
qed simp

lemma target_len_foldl_append_op:
  "target_len (foldl append_op acc raw) = target_len acc + target_len raw"
proof (induction raw arbitrary: acc)
  case (Cons x raw)
  then show ?case using lens_Cons(2) [of x raw] by (simp add: target_len_append_op)
qed simp

lemma len_difference_foldl_append_op:
  "len_difference (foldl append_op acc raw) = len_difference acc + len_difference raw"
proof (induction raw arbitrary: acc)
  case (Cons x raw)
  then show ?case using lens_Cons(3) [of x raw] by (simp add: len_difference_append_op)
qed (simp add: len_difference_def)

lemma effect_foldl_append_op: "effect (foldl append_op acc raw) doc = effect (acc @ raw) doc"
proof (induction raw arbitrary: acc)
  case Nil
  show ?case by simp
next
  case (Cons x raw)
  have "effect (foldl append_op acc (x # raw)) doc = effect (append_op acc x @ raw) doc"
    using Cons.IH [of "append_op acc x"] by simp
  also have "\<dots> = effect ((acc @ [x]) @ raw) doc"
    unfolding effect_append [of _ raw] by (simp add: effect_append_op base_len_append_op base_len_append)
  finally show ?case by simp
qed

lemma nonzero_append_op: "nonzero ops \<Longrightarrow> nonzero (append_op ops op)"
  by (cases op ops rule: append_op_cases) (auto simp: nonzero_def same_class_merge)

lemma nonzero_foldl_append_op: "nonzero acc \<Longrightarrow> nonzero (foldl append_op acc raw)"
  by (induction raw arbitrary: acc) (simp_all add: nonzero_append_op)

lemma normal_form_snoc:
  "normal_form (xs @ [y]) \<longleftrightarrow> normal_form xs \<and> (xs = [] \<or> \<not> same_class (last xs) y)"
  by (induction xs rule: normal_form.induct) auto

lemma normal_form_append_op: "normal_form ops \<Longrightarrow> normal_form (append_op ops op)"
  by (cases op ops rule: append_op_cases) (auto simp: normal_form_snoc same_class_merge)

lemma normal_form_foldl_append_op: "normal_form acc \<Longrightarrow> normal_form (foldl append_op acc raw)"
  by (induction raw arbitrary: acc) (simp_all add: normal_form_append_op)

subsection \<open>Inversion\<close>

lemma invert_loop_emit:
  "invert_loop ops doc i acc = foldl append_op acc (invert_emit ops (drop i doc))"
  by (induction ops doc i acc rule: invert_loop.induct) (simp_all add: slice_def add.commute)

lemma invert_eq: "invert ops doc = Inr (foldl append_op [] (invert_emit ops doc))"
  by (simp add: invert_def invert_loop_emit)

lemma base_len_invert_emit: "base_len (invert_emit ops doc) = target_len ops"
  by (induction ops doc rule: invert_emit.induct) simp_all

lemma len_difference_invert_emit:
  "base_len ops \<le> length doc \<Longrightarrow> len_difference (invert_emit ops doc) = - len_difference ops"
  by (induction ops doc rule: invert_emit.induct) (simp_all add: len_difference_def)

lemma effect_invert_emit:
  "base_len ops = length doc \<Longrightarrow> effect (invert_emit ops doc) (effect ops doc) = doc"
  by (induction ops doc rule: invert_emit.induct) simp_all

lemma invert_emit_positions:
  "invert_emit ops (drop i doc)
   = map (\<lambda>k. inverse_op doc (i + base_len (take k ops)) (ops ! k)) [0..<length ops]"
proof (induction ops arbitrary: i)
  case Nil
  show ?case by simp
next
  case (Cons x ops)
  have upt: "[0..<length (x # ops)] = 0 # map Suc [0..<length ops]"
    by (simp add: upt_conv_Cons map_Suc_upt del: upt_Suc)
  have tl: "map (\<lambda>k. inverse_op doc (i + base_len (take k (x # ops))) ((x # ops) ! k))
              (map Suc [0..<length ops])
            = invert_emit ops (drop (i + base_len [x]) doc)"
    unfolding Cons.IH [of "i + base_len [x]"]
    by (simp add: o_def lens_Cons(1) [of x "take _ ops"] add.assoc)
  show ?case
    unfolding upt list.map tl
    by (cases x) (simp_all add: slice_def add.commute)
qed

lemma invert_positions:
  "invert ops doc
   = Inr (foldl append_op [] (map (\<lambda>k. inverse_op doc (cursor ops k) (ops ! k)) [0..<length ops]))"
  using invert_emit_positions [of ops 0 doc] by (simp add: invert_eq cursor_def)

lemma length_slice: "length (slice doc i (i + n)) = min n (length doc - i)"
  by (simp add: slice_def min.commute)

subsection \<open>Composition: the loop and the operations it appends\<close>

lemma compose_emit_Nil [simp]: "compose_emit [] [] = Inr []"
  by (simp add: compose_emit.simps)

lemma compose_emit_Delete [simp]:
  "compose_emit (Delete n # xs) ys = map_result ((#) (Delete n)) (compose_emit xs ys)"
  by (cases ys) (simp_all add: compose_emit.simps)

lemma compose_emit_Insert [simp]:
  "xs = [] \<or> \<not> is_Delete (hd xs) \<Longrightarrow>
   compose_emit xs (Insert s # ys) = map_result ((#) (Insert s)) (compose_emit xs ys)"
  by (cases xs) (simp_all add: compose_emit.simps)

lemma compose_emit_too_short [simp]:
  "\<not> is_Insert y \<Longrightarrow> compose_emit [] (y # ys) = Inl (IncompatibleOperationError First_too_short)"
  by (simp add: compose_emit.simps)

lemma compose_emit_too_long [simp]:
  "\<not> is_Delete x \<Longrightarrow> compose_emit (x # xs) [] = Inl (IncompatibleOperationError First_too_long)"
  by (simp add: compose_emit.simps)

lemma compose_emit_aligned:
  "\<not> is_Delete x \<Longrightarrow> \<not> is_Insert y \<Longrightarrow>
   compose_emit (x # xs) (y # ys) =
     map_result ((@) (compose_piece x y))
       (if len x = len y then compose_emit xs ys
        else if len x > len y then compose_emit (shorten x (len y) # xs) ys
        else compose_emit xs (shorten y (len x) # ys))"
  by (simp add: compose_emit.simps)

lemma compose_emit_induct [case_names Nil Delete Insert Short Long Aligned]:
  fixes P :: "'c op list \<Rightarrow> 'c op list \<Rightarrow> bool"
  assumes "P [] []"
    and "\<And>n xs ys. P xs ys \<Longrightarrow> P (Delete n # xs) ys"
    and "\<And>xs s ys. xs = [] \<or> \<not> is_Delete (hd xs) \<Longrightarrow> P xs ys \<Longrightarrow> P xs (Insert s # ys)"
    and "\<And>y ys. \<not> is_Insert y \<Longrightarrow> P [] (y # ys)"
    and "\<And>x xs. \<not> is_Delete x \<Longrightarrow> P (x # xs) []"
    and "\<And>x xs y ys. \<not> is_Delete x \<Longrightarrow> \<not> is_Insert y \<Longrightarrow>
           (len x = len y \<Longrightarrow> P xs ys) \<Longrightarrow>
           (len y < len x \<Longrightarrow> P (shorten x (len y) # xs) ys) \<Longrightarrow>
           (len x < len y \<Longrightarrow> P xs (shorten y (len x) # ys)) \<Longrightarrow> P (x # xs) (y # ys)"
  shows "P xs ys"
proof (induction xs ys rule: compose_emit.induct)
  case 1
  show ?case by (rule assms(1))
next
  case (2 y ys)
  show ?case
  proof (cases y)
    case (Insert s)
    with 2 show ?thesis by (auto intro: assms(3))
  qed (auto intro: assms(4))
next
  case (3 x xs)
  show ?case
  proof (cases x)
    case (Delete n)
    with 3 show ?thesis by (auto intro: assms(2))
  qed (auto intro: assms(5))
next
  case (4 x xs y ys)
  show ?case
  proof (cases "is_Delete x")
    case True
    then obtain n where "x = Delete n" by (cases x) auto
    with 4(1) True show ?thesis by (auto intro: assms(2))
  next
    case nd: False
    show ?thesis
    proof (cases "is_Insert y")
      case True
      then obtain s where "y = Insert s" by (cases y) auto
      with 4(2) nd True show ?thesis by (auto intro: assms(3))
    next
      case False
      with nd 4(3,4,5) show ?thesis by (intro assms(6)) auto
    qed
  qed
qed

lemma map_result_foldl_Cons:
  "map_result (foldl append_op acc) (map_result ((#) x) R)
   = map_result (foldl append_op (append_op acc x)) R"
  by (cases R) simp_all

lemma map_result_foldl_append:
  "map_result (foldl append_op acc) (map_result ((@) p) R)
   = map_result (foldl append_op (foldl append_op acc p)) R"
  by (cases R) simp_all

lemma compose_body_pending:
  "compose_body (a, ia, b, ib, acc) = compose_body (None, pending a ia, None, pending b ib, acc)"
  by (cases a; cases b; cases ia; cases ib) (simp_all add: compose_body.simps)

lemma compose_while_pending:
  "compose_while (a, ia, b, ib, acc) = compose_while (None, pending a ia, None, pending b ib, acc)"
  by (subst (1 2) compose_while.simps) (simp only: compose_body_pending [of a ia b ib])

lemma pending_next_op: "pending (fst (next_op xs)) (snd (next_op xs)) = xs"
  by (cases xs) simp_all

lemma pending_shorten_ops:
  "pending (fst (shorten_ops x y)) xs = (if len y < len x then shorten x (len y) # xs else xs)"
  "pending (snd (shorten_ops x y)) ys = (if len x < len y then shorten y (len x) # ys else ys)"
  by (simp_all add: shorten_ops_def Let_def)

lemma compose_while_continue:
  assumes "compose_body (None, xs, None, ys, acc) = Inl (a', ia', b', ib', acc')"
  shows "compose_while (None, xs, None, ys, acc)
         = compose_while (None, pending a' ia', None, pending b' ib', acc')"
  by (subst compose_while.simps) (simp add: assms compose_while_pending [of a' ia' b' ib'])

lemma compose_while_leave:
  assumes "compose_body s = Inr r"
  shows "compose_while s = r"
  by (subst compose_while.simps) (simp add: assms)

lemma compose_body_Delete:
  "compose_body (None, Delete n # xs, None, ys, acc)
   = Inl (None, xs, fst (next_op ys), snd (next_op ys), append_op acc (Delete n))"
  by (cases ys) (simp_all add: compose_body.simps)

lemma compose_body_Insert:
  assumes "xs = [] \<or> \<not> is_Delete (hd xs)"
  shows "compose_body (None, xs, None, Insert s # ys, acc)
   = Inl (fst (next_op xs), snd (next_op xs), None, ys, append_op acc (Insert s))"
proof (cases xs)
  case Nil
  then show ?thesis by (simp add: compose_body.simps)
next
  case (Cons x xs')
  with assms show ?thesis by (cases x) (simp_all add: compose_body.simps)
qed

lemma compose_body_aligned:
  assumes "\<not> is_Delete x" "\<not> is_Insert y"
  shows "compose_body (None, x # xs, None, y # ys, acc)
   = Inl (fst (shorten_ops x y), xs, snd (shorten_ops x y), ys,
          foldl append_op acc (compose_piece x y))"
  using assms by (cases x; cases y) (simp_all add: compose_body.simps case_prod_unfold Let_def)

lemma compose_body_too_short:
  assumes "\<not> is_Insert y"
  shows "compose_body (None, [], None, y # ys, acc) = Inr (Inl (IncompatibleOperationError First_too_short))"
  using assms by (cases y) (simp_all add: compose_body.simps)

lemma compose_body_too_long:
  assumes "\<not> is_Delete x"
  shows "compose_body (None, x # xs, None, [], acc) = Inr (Inl (IncompatibleOperationError First_too_long))"
  using assms by (cases x) (simp_all add: compose_body.simps)

lemma compose_while_aligned:
  assumes "\<not> is_Delete x" "\<not> is_Insert y"
  shows "compose_while (None, x # xs, None, y # ys, acc)
   = compose_while (None, if len y < len x then shorten x (len y) # xs else xs,
                    None, if len x < len y then shorten y (len x) # ys else ys,
                    foldl append_op acc (compose_piece x y))"
  using compose_while_continue [OF compose_body_aligned [OF assms]]
  by (simp only: pending_shorten_ops)

lemma compose_while_emit:
  "compose_while (None, xs, None, ys, acc) = map_result (foldl append_op acc) (compose_emit xs ys)"
proof (induction xs ys arbitrary: acc rule: compose_emit_induct)
  case Nil
  show ?case by (rule compose_while_leave) (simp add: compose_body.simps)
next
  case (Delete n xs ys)
  show ?case
    using compose_while_continue [OF compose_body_Delete, of n xs ys acc]
    by (simp add: pending_next_op Delete.IH map_result_foldl_Cons)
next
  case (Insert xs s ys)
  show ?case
    using compose_while_continue [OF compose_body_Insert [OF Insert.hyps], of s ys acc]
    by (simp add: pending_next_op Insert.IH Insert.hyps map_result_foldl_Cons)
next
  case (Short y ys)
  then show ?case by (simp add: compose_while_leave [OF compose_body_too_short])
next
  case (Long x xs)
  then show ?case by (simp add: compose_while_leave [OF compose_body_too_long])
next
  case (Aligned x xs y ys)
  then show ?case
    by (subst compose_while_aligned) (auto simp: map_result_foldl_append compose_emit_aligned)
qed

lemma compose_eq: "compose A B = map_result (foldl append_op []) (compose_emit A B)"
  by (simp add: compose_def compose_while_emit)

subsection \<open>Composition: effect, lengths and outcome\<close>

lemma aligned_effect:
  assumes "\<not> is_Delete x" "\<not> is_Insert y" "base_len [x] \<le> length doc"
  shows "effect (y # ys) (effect (x # xs) doc)
       = effect (compose_piece x y) doc
         @ effect (if len x < len y then shorten y (len x) # ys else ys)
             (effect (if len y < len x then shorten x (len y) # xs else xs)
                (drop (base_len (compose_piece x y)) doc))"
proof (cases x)
  case (Retain n)
  show ?thesis
  proof (cases y)
    case (Retain m)
    with \<open>x = Retain n\<close> assms show ?thesis
      by (simp add: min_def drop_take)
  next
    case (Delete m)
    with \<open>x = Retain n\<close> assms show ?thesis
      by (simp add: min_def drop_take)
  qed (use assms in simp)
next
  case (Insert s)
  show ?thesis
  proof (cases y)
    case (Retain m)
    with \<open>x = Insert s\<close> assms show ?thesis
      by (simp add: min_def)
  next
    case (Delete m)
    with \<open>x = Insert s\<close> assms show ?thesis
      by (simp add: min_def)
  qed (use assms in simp)
qed (use assms in simp)

lemma base_len_compose_piece:
  "\<not> is_Delete x \<Longrightarrow> \<not> is_Insert y \<Longrightarrow>
   base_len (compose_piece x y) = (if is_Insert x then 0 else min (len x) (len y))"
  by (cases x; cases y) simp_all

lemma base_len_shorten:
  "n \<le> len x \<Longrightarrow> base_len (shorten x n # xs) = base_len (x # xs) - (if is_Insert x then 0 else n)"
  by (cases x) simp_all

lemma target_len_shorten:
  "n \<le> len x \<Longrightarrow> target_len (shorten x n # xs) = target_len (x # xs) - (if is_Delete x then 0 else n)"
  by (cases x) simp_all

lemma base_len_Cons_len: "base_len (x # xs) = (if is_Insert x then 0 else len x) + base_len xs"
  by (cases x) simp_all

lemma target_len_Cons_len: "target_len (x # xs) = (if is_Delete x then 0 else len x) + target_len xs"
  by (cases x) simp_all

lemma compose_emit_effect:
  "compose_emit xs ys = Inr raw \<Longrightarrow> base_len xs \<le> length doc \<Longrightarrow>
   effect raw doc = effect ys (effect xs doc)"
proof (induction xs ys arbitrary: raw doc rule: compose_emit_induct)
  case Nil
  then show ?case by simp
next
  case (Delete n xs ys)
  then show ?case by auto
next
  case (Insert xs s ys)
  then show ?case by (auto simp: compose_emit_Insert)
next
  case (Short y ys)
  then show ?case by (simp add: compose_emit_too_short)
next
  case (Long x xs)
  then show ?case by (simp add: compose_emit_too_long)
next
  case (Aligned x xs y ys)
  let ?p = "compose_piece x y"
  let ?xs = "if len y < len x then shorten x (len y) # xs else xs"
  let ?ys = "if len x < len y then shorten y (len x) # ys else ys"
  from Aligned.prems(1) Aligned.hyps obtain raw' where
    raw: "raw = ?p @ raw'" and rec: "compose_emit ?xs ?ys = Inr raw'"
    by (auto simp: compose_emit_aligned split: if_splits)
  have len: "base_len ?xs \<le> length (drop (base_len ?p) doc)"
    using Aligned.prems(2) Aligned.hyps
    by (auto simp: base_len_compose_piece base_len_shorten base_len_Cons_len [of x xs]
        split: if_splits)
  have IH: "effect raw' (drop (base_len ?p) doc) = effect ?ys (effect ?xs (drop (base_len ?p) doc))"
  proof -
    consider "len x = len y" | "len y < len x" | "len x < len y" by linarith
    then show ?thesis
    proof cases
      case 1
      with Aligned.IH(1) [OF 1, of raw' "drop (base_len ?p) doc"] rec len show ?thesis by simp
    next
      case 2
      with Aligned.IH(2) [OF 2, of raw' "drop (base_len ?p) doc"] rec len show ?thesis by simp
    next
      case 3
      with Aligned.IH(3) [OF 3, of raw' "drop (base_len ?p) doc"] rec len show ?thesis by simp
    qed
  qed
  have "base_len [x] \<le> length doc"
    using Aligned.prems(2) by (simp add: base_len_Cons_len [of x xs] base_len_Cons_len [of x "[]"])
  from aligned_effect [OF Aligned.hyps this, of ys xs] IH show ?case
    by (simp only: raw effect_append)
qed

lemma nonzero_simps [simp]:
  "nonzero []"
  "nonzero (x # xs) \<longleftrightarrow> 0 < len x \<and> nonzero xs"
  by (simp_all add: nonzero_def)

lemma len_shorten [simp]: "len (shorten x n) = len x - n"
  by (cases x) simp_all

lemma is_shorten [simp]:
  "is_Insert (shorten x n) = is_Insert x"
  "is_Delete (shorten x n) = is_Delete x"
  by (cases x; simp)+

lemma compose_emit_outcome:
  "nonzero xs \<Longrightarrow> nonzero ys \<Longrightarrow>
   (target_len xs = base_len ys \<longrightarrow> (\<exists>raw. compose_emit xs ys = Inr raw))
   \<and> (target_len xs < base_len ys \<longrightarrow>
        compose_emit xs ys = Inl (IncompatibleOperationError First_too_short))
   \<and> (base_len ys < target_len xs \<longrightarrow>
        compose_emit xs ys = Inl (IncompatibleOperationError First_too_long))"
proof (induction xs ys rule: compose_emit_induct)
  case Nil
  show ?case by simp
next
  case (Delete n xs ys)
  then show ?case by auto
next
  case (Insert xs s ys)
  then show ?case by (auto simp: compose_emit_Insert)
next
  case (Short y ys)
  then show ?case by (simp add: compose_emit_too_short base_len_Cons_len [of y ys])
next
  case (Long x xs)
  then show ?case by (simp add: compose_emit_too_long target_len_Cons_len [of x xs])
next
  case (Aligned x xs y ys)
  consider "len x = len y" | "len y < len x" | "len x < len y" by linarith
  then show ?case
  proof cases
    case 1
    with Aligned.IH(1) Aligned.prems Aligned.hyps show ?thesis
      by (simp add: compose_emit_aligned target_len_Cons_len [of x xs] base_len_Cons_len [of y ys])
  next
    case 2
    with Aligned.IH(2) Aligned.prems Aligned.hyps show ?thesis
      by (simp add: compose_emit_aligned target_len_Cons_len [of x xs] base_len_Cons_len [of y ys]
          target_len_shorten)
  next
    case 3
    with Aligned.IH(3) Aligned.prems Aligned.hyps show ?thesis
      by (simp add: compose_emit_aligned target_len_Cons_len [of x xs] base_len_Cons_len [of y ys]
          base_len_shorten)
  qed
qed

lemma lens_compose_piece:
  "\<not> is_Delete x \<Longrightarrow> \<not> is_Insert y \<Longrightarrow>
   target_len (compose_piece x y) = (if is_Delete y then 0 else min (len x) (len y))"
  by (cases x; cases y) simp_all

lemma compose_emit_lens:
  "compose_emit xs ys = Inr raw \<Longrightarrow> base_len raw = base_len xs \<and> target_len raw = target_len ys"
proof (induction xs ys arbitrary: raw rule: compose_emit_induct)
  case Nil
  then show ?case by simp
next
  case (Delete n xs ys)
  then show ?case by auto
next
  case (Insert xs s ys)
  then show ?case by (auto simp: compose_emit_Insert)
next
  case (Short y ys)
  then show ?case by (simp add: compose_emit_too_short)
next
  case (Long x xs)
  then show ?case by (simp add: compose_emit_too_long)
next
  case (Aligned x xs y ys)
  consider "len x = len y" | "len y < len x" | "len x < len y" by linarith
  then show ?case
  proof cases
    case 1
    with Aligned.IH(1) Aligned.prems Aligned.hyps show ?thesis
      by (auto simp: compose_emit_aligned base_len_append target_len_append
          base_len_compose_piece lens_compose_piece
          target_len_Cons_len [of y ys] base_len_Cons_len [of x xs])
  next
    case 2
    with Aligned.IH(2) Aligned.prems Aligned.hyps show ?thesis
      by (auto simp: compose_emit_aligned base_len_append target_len_append
          base_len_compose_piece lens_compose_piece base_len_shorten
          target_len_Cons_len [of y ys] base_len_Cons_len [of x xs])
  next
    case 3
    with Aligned.IH(3) Aligned.prems Aligned.hyps show ?thesis
      by (auto simp: compose_emit_aligned base_len_append target_len_append
          base_len_compose_piece lens_compose_piece target_len_shorten
          target_len_Cons_len [of y ys] base_len_Cons_len [of x xs])
  qed
qed

text \<open>
  For sequences of the data model the outcome of \<open>compose\<close> is decided by two lengths: what
  the first writes and what the second reads.
\<close>

lemma compose_outcome_lengths:
  assumes "nonzero A" "nonzero B"
  shows "(compose A B = Inl (IncompatibleOperationError First_too_short) \<longleftrightarrow> target_len A < base_len B)"
    and "(compose A B = Inl (IncompatibleOperationError First_too_long) \<longleftrightarrow> base_len B < target_len A)"
    and "((\<exists>C. compose A B = Inr C) \<longleftrightarrow> target_len A = base_len B)"
proof -
  consider "target_len A = base_len B" | "target_len A < base_len B" | "base_len B < target_len A"
    by linarith
  then have "(compose A B = Inl (IncompatibleOperationError First_too_short) \<longleftrightarrow> target_len A < base_len B)
    \<and> (compose A B = Inl (IncompatibleOperationError First_too_long) \<longleftrightarrow> base_len B < target_len A)
    \<and> ((\<exists>C. compose A B = Inr C) \<longleftrightarrow> target_len A = base_len B)"
    using compose_emit_outcome [OF assms] by cases (auto simp: compose_eq)
  then show "(compose A B = Inl (IncompatibleOperationError First_too_short) \<longleftrightarrow> target_len A < base_len B)"
    and "(compose A B = Inl (IncompatibleOperationError First_too_long) \<longleftrightarrow> base_len B < target_len A)"
    and "((\<exists>C. compose A B = Inr C) \<longleftrightarrow> target_len A = base_len B)"
    by blast+
qed

subsection \<open>Transformation: the loop and the operations it appends\<close>

lemma transform_emit_Nil [simp]: "transform_emit [] [] = Inr ([], [])"
  by (simp add: transform_emit.simps)

lemma transform_emit_Insert_a [simp]:
  "transform_emit (Insert s # xs) ys
   = map_result (map_prod ((#) (Insert s)) ((#) (Retain (length s)))) (transform_emit xs ys)"
  by (cases ys) (simp_all add: transform_emit.simps)

lemma transform_emit_Insert_b [simp]:
  "xs = [] \<or> \<not> is_Insert (hd xs) \<Longrightarrow>
   transform_emit xs (Insert s # ys)
   = map_result (map_prod ((#) (Retain (length s))) ((#) (Insert s))) (transform_emit xs ys)"
  by (cases xs) (simp_all add: transform_emit.simps)

lemma transform_emit_a_exhausted [simp]:
  "\<not> is_Insert y \<Longrightarrow> transform_emit [] (y # ys) = Inl TypeError"
  by (simp add: transform_emit.simps)

lemma transform_emit_b_exhausted [simp]:
  "\<not> is_Insert x \<Longrightarrow> transform_emit (x # xs) [] = Inl TypeError"
  by (simp add: transform_emit.simps)

lemma transform_emit_aligned:
  "\<not> is_Insert x \<Longrightarrow> \<not> is_Insert y \<Longrightarrow>
   transform_emit (x # xs) (y # ys) =
     map_result (map_prod ((@) (prime_piece x y)) ((@) (prime_piece y x)))
       (if len x = len y then transform_emit xs ys
        else if len x > len y then transform_emit (shorten x (len y) # xs) ys
        else transform_emit xs (shorten y (len x) # ys))"
  by (simp add: transform_emit.simps)

lemma transform_emit_induct [case_names Nil Insert_a Insert_b Exhausted_a Exhausted_b Aligned]:
  fixes P :: "'c op list \<Rightarrow> 'c op list \<Rightarrow> bool"
  assumes "P [] []"
    and "\<And>s xs ys. P xs ys \<Longrightarrow> P (Insert s # xs) ys"
    and "\<And>xs s ys. xs = [] \<or> \<not> is_Insert (hd xs) \<Longrightarrow> P xs ys \<Longrightarrow> P xs (Insert s # ys)"
    and "\<And>y ys. \<not> is_Insert y \<Longrightarrow> P [] (y # ys)"
    and "\<And>x xs. \<not> is_Insert x \<Longrightarrow> P (x # xs) []"
    and "\<And>x xs y ys. \<not> is_Insert x \<Longrightarrow> \<not> is_Insert y \<Longrightarrow>
           (len x = len y \<Longrightarrow> P xs ys) \<Longrightarrow>
           (len y < len x \<Longrightarrow> P (shorten x (len y) # xs) ys) \<Longrightarrow>
           (len x < len y \<Longrightarrow> P xs (shorten y (len x) # ys)) \<Longrightarrow> P (x # xs) (y # ys)"
  shows "P xs ys"
proof (induction xs ys rule: transform_emit.induct)
  case 1
  show ?case by (rule assms(1))
next
  case (2 y ys)
  show ?case
  proof (cases y)
    case (Insert s)
    with 2 show ?thesis by (auto intro: assms(3))
  qed (auto intro: assms(4))
next
  case (3 x xs)
  show ?case
  proof (cases x)
    case (Insert s)
    with 3 show ?thesis by (auto intro: assms(2))
  qed (auto intro: assms(5))
next
  case (4 x xs y ys)
  show ?case
  proof (cases "is_Insert x")
    case True
    then obtain s where "x = Insert s" by (cases x) auto
    with 4(1) True show ?thesis by (auto intro: assms(2))
  next
    case na: False
    show ?thesis
    proof (cases "is_Insert y")
      case True
      then obtain s where "y = Insert s" by (cases y) auto
      with 4(2) na True show ?thesis by (auto intro: assms(3))
    next
      case False
      with na 4(3,4,5) show ?thesis by (intro assms(6)) auto
    qed
  qed
qed

lemma map_result_comp: "map_result f (map_result g R) = map_result (f \<circ> g) R"
  by (cases R) simp_all

lemma transform_body_pending:
  "transform_body (a, ia, b, ib, pa, pb)
   = transform_body (None, pending a ia, None, pending b ib, pa, pb)"
  by (cases a; cases b; cases ia; cases ib) (simp_all add: transform_body.simps)

lemma transform_while_pending:
  "transform_while (a, ia, b, ib, pa, pb)
   = transform_while (None, pending a ia, None, pending b ib, pa, pb)"
  by (subst (1 2) transform_while.simps) (simp only: transform_body_pending [of a ia b ib])

lemma transform_while_continue:
  assumes "transform_body (None, xs, None, ys, pa, pb) = Inl (a', ia', b', ib', pa', pb')"
  shows "transform_while (None, xs, None, ys, pa, pb)
         = transform_while (None, pending a' ia', None, pending b' ib', pa', pb')"
  by (subst transform_while.simps) (simp add: assms transform_while_pending [of a' ia' b' ib'])

lemma transform_while_leave:
  assumes "transform_body s = Inr r"
  shows "transform_while s = r"
  by (subst transform_while.simps) (simp add: assms)

lemma transform_body_Insert_a:
  "transform_body (None, Insert s # xs, None, ys, pa, pb)
   = Inl (None, xs, fst (next_op ys), snd (next_op ys),
          append_op pa (Insert s), append_op pb (Retain (length s)))"
  by (cases ys) (simp_all add: transform_body.simps)

lemma transform_body_Insert_b:
  assumes "xs = [] \<or> \<not> is_Insert (hd xs)"
  shows "transform_body (None, xs, None, Insert s # ys, pa, pb)
   = Inl (fst (next_op xs), snd (next_op xs), None, ys,
          append_op pa (Retain (length s)), append_op pb (Insert s))"
proof (cases xs)
  case Nil
  then show ?thesis by (simp add: transform_body.simps)
next
  case (Cons x xs')
  with assms show ?thesis by (cases x) (simp_all add: transform_body.simps)
qed

lemma transform_body_aligned:
  assumes "\<not> is_Insert x" "\<not> is_Insert y"
  shows "transform_body (None, x # xs, None, y # ys, pa, pb)
   = Inl (fst (shorten_ops x y), xs, snd (shorten_ops x y), ys,
          foldl append_op pa (prime_piece x y), foldl append_op pb (prime_piece y x))"
  using assms by (cases x; cases y) (simp_all add: transform_body.simps case_prod_unfold Let_def min.commute)

lemma transform_body_a_exhausted:
  assumes "\<not> is_Insert y"
  shows "transform_body (None, [], None, y # ys, pa, pb) = Inr (Inl TypeError)"
  using assms by (cases y) (simp_all add: transform_body.simps)

lemma transform_body_b_exhausted:
  assumes "\<not> is_Insert x"
  shows "transform_body (None, x # xs, None, [], pa, pb) = Inr (Inl TypeError)"
  using assms by (cases x) (simp_all add: transform_body.simps)

lemma transform_while_aligned:
  assumes "\<not> is_Insert x" "\<not> is_Insert y"
  shows "transform_while (None, x # xs, None, y # ys, pa, pb)
   = transform_while (None, if len y < len x then shorten x (len y) # xs else xs,
                      None, if len x < len y then shorten y (len x) # ys else ys,
                      foldl append_op pa (prime_piece x y), foldl append_op pb (prime_piece y x))"
  using transform_while_continue [OF transform_body_aligned [OF assms]]
  by (simp only: pending_shorten_ops)

lemma map_result_primes_Cons:
  "map_result (map_prod (foldl append_op pa) (foldl append_op pb)) (map_result (map_prod ((#) x) ((#) y)) R)
   = map_result (map_prod (foldl append_op (append_op pa x)) (foldl append_op (append_op pb y))) R"
  by (cases R) auto

lemma map_result_primes_append:
  "map_result (map_prod (foldl append_op pa) (foldl append_op pb)) (map_result (map_prod ((@) p) ((@) q)) R)
   = map_result (map_prod (foldl append_op (foldl append_op pa p)) (foldl append_op (foldl append_op pb q))) R"
  by (cases R) auto

lemma transform_while_emit:
  "transform_while (None, xs, None, ys, pa, pb)
   = map_result (map_prod (foldl append_op pa) (foldl append_op pb)) (transform_emit xs ys)"
proof (induction xs ys arbitrary: pa pb rule: transform_emit_induct)
  case Nil
  show ?case by (rule transform_while_leave) (simp add: transform_body.simps)
next
  case (Insert_a s xs ys)
  show ?case
    using transform_while_continue [OF transform_body_Insert_a, of s xs ys pa pb]
    by (simp add: pending_next_op Insert_a.IH map_result_primes_Cons)
next
  case (Insert_b xs s ys)
  show ?case
    using transform_while_continue [OF transform_body_Insert_b [OF Insert_b.hyps], of s ys pa pb]
    by (simp add: pending_next_op Insert_b.IH Insert_b.hyps map_result_primes_Cons)
next
  case (Exhausted_a y ys)
  then show ?case by (simp add: transform_while_leave [OF transform_body_a_exhausted])
next
  case (Exhausted_b x xs)
  then show ?case by (simp add: transform_while_leave [OF transform_body_b_exhausted])
next
  case (Aligned x xs y ys)
  then show ?case
    by (subst transform_while_aligned) (auto simp: map_result_primes_append transform_emit_aligned)
qed

lemma transform_eq:
  "transform A B = map_result (map_prod (foldl append_op []) (foldl append_op [])) (transform_emit A B)"
  by (simp add: transform_def transform_while_emit)

subsection \<open>Transformation: effect, lengths and outcome\<close>

lemma aligned_prime_effect:
  assumes "\<not> is_Insert x" "\<not> is_Insert y" "len x \<le> length doc" "len y \<le> length doc"
  shows "effect (prime_piece y x @ rb) (effect (x # xs) doc)
       = (if is_Delete x \<or> is_Delete y then [] else take (min (len x) (len y)) doc)
         @ effect rb (effect (if len y < len x then shorten x (len y) # xs else xs)
                        (drop (min (len x) (len y)) doc))"
proof (cases x)
  case (Retain n)
  show ?thesis
  proof (cases y)
    case (Retain m)
    with \<open>x = Retain n\<close> assms show ?thesis
      by (simp add: min_def drop_take)
  next
    case (Delete m)
    with \<open>x = Retain n\<close> assms show ?thesis
      by (simp add: min_def drop_take)
  qed (use assms in simp)
next
  case (Delete n)
  show ?thesis
  proof (cases y)
    case (Retain m)
    with \<open>x = Delete n\<close> assms show ?thesis
      by (simp add: min_def)
  next
    case (Delete m)
    with \<open>x = Delete n\<close> assms show ?thesis
      by (simp add: min_def)
  qed (use assms in simp)
qed (use assms in simp)

lemma transform_emit_effect:
  "transform_emit xs ys = Inr (ra, rb) \<Longrightarrow> base_len xs \<le> length doc \<Longrightarrow>
   base_len ys \<le> length doc \<Longrightarrow> effect rb (effect xs doc) = effect ra (effect ys doc)"
proof (induction xs ys arbitrary: ra rb doc rule: transform_emit_induct)
  case Nil
  then show ?case by simp
next
  case (Insert_a s xs ys)
  then show ?case by auto
next
  case (Insert_b xs s ys)
  then show ?case by auto
next
  case (Exhausted_a y ys)
  then show ?case by simp
next
  case (Exhausted_b x xs)
  then show ?case by simp
next
  case (Aligned x xs y ys)
  let ?k = "min (len x) (len y)"
  let ?xs = "if len y < len x then shorten x (len y) # xs else xs"
  let ?ys = "if len x < len y then shorten y (len x) # ys else ys"
  from Aligned.prems(1) Aligned.hyps obtain ra' rb' where
    ra: "ra = prime_piece x y @ ra'" and rb: "rb = prime_piece y x @ rb'"
    and rec: "transform_emit ?xs ?ys = Inr (ra', rb')"
    by (auto simp: transform_emit_aligned split: if_splits)
  have lx: "len x \<le> length doc" and ly: "len y \<le> length doc"
    using Aligned.prems(2,3) Aligned.hyps
    by (simp_all add: base_len_Cons_len [of x xs] base_len_Cons_len [of y ys])
  have len: "base_len ?xs \<le> length (drop ?k doc)" "base_len ?ys \<le> length (drop ?k doc)"
    using Aligned.prems(2,3) Aligned.hyps
    by (auto simp: base_len_shorten base_len_Cons_len [of x xs] base_len_Cons_len [of y ys]
        split: if_splits)
  have IH: "effect rb' (effect ?xs (drop ?k doc)) = effect ra' (effect ?ys (drop ?k doc))"
  proof -
    consider "len x = len y" | "len y < len x" | "len x < len y" by linarith
    then show ?thesis
    proof cases
      case 1
      with Aligned.IH(1) [OF 1, of ra' rb' "drop ?k doc"] rec len show ?thesis by simp
    next
      case 2
      with Aligned.IH(2) [OF 2, of ra' rb' "drop ?k doc"] rec len show ?thesis by simp
    next
      case 3
      with Aligned.IH(3) [OF 3, of ra' rb' "drop ?k doc"] rec len show ?thesis by simp
    qed
  qed
  from aligned_prime_effect [OF Aligned.hyps lx ly, of rb' xs]
    aligned_prime_effect [OF Aligned.hyps(2,1) ly lx, of ra' ys] IH
  show ?case unfolding ra rb by (simp add: min.commute disj_commute)
qed

lemma transform_emit_succeeds:
  "nonzero xs \<Longrightarrow> nonzero ys \<Longrightarrow> base_len xs = base_len ys \<Longrightarrow>
   \<exists>ra rb. transform_emit xs ys = Inr (ra, rb)"
proof (induction xs ys rule: transform_emit_induct)
  case Nil
  show ?case by simp
next
  case (Insert_a s xs ys)
  then show ?case by auto
next
  case (Insert_b xs s ys)
  then show ?case by auto
next
  case (Exhausted_a y ys)
  then show ?case by (simp add: base_len_Cons_len [of y ys])
next
  case (Exhausted_b x xs)
  then show ?case by (simp add: base_len_Cons_len [of x xs])
next
  case (Aligned x xs y ys)
  consider "len x = len y" | "len y < len x" | "len x < len y" by linarith
  then show ?case
  proof cases
    case 1
    with Aligned.IH(1) Aligned.prems Aligned.hyps show ?thesis
      by (auto simp: transform_emit_aligned base_len_Cons_len [of x xs] base_len_Cons_len [of y ys])
  next
    case 2
    with Aligned.IH(2) Aligned.prems Aligned.hyps show ?thesis
      by (auto simp: transform_emit_aligned base_len_Cons_len [of x xs] base_len_Cons_len [of y ys]
          base_len_shorten)
  next
    case 3
    with Aligned.IH(3) Aligned.prems Aligned.hyps show ?thesis
      by (auto simp: transform_emit_aligned base_len_Cons_len [of x xs] base_len_Cons_len [of y ys]
          base_len_shorten)
  qed
qed

lemma lens_prime_piece:
  "\<not> is_Insert x \<Longrightarrow> \<not> is_Insert y \<Longrightarrow>
   base_len (prime_piece x y) = (if is_Delete y then 0 else min (len x) (len y))"
  by (cases x; cases y) simp_all

lemma transform_emit_lens:
  "transform_emit xs ys = Inr (ra, rb) \<Longrightarrow>
   base_len ra = target_len ys \<and> base_len rb = target_len xs"
proof (induction xs ys arbitrary: ra rb rule: transform_emit_induct)
  case Nil
  then show ?case by simp
next
  case (Insert_a s xs ys)
  then show ?case by auto
next
  case (Insert_b xs s ys)
  then show ?case by auto
next
  case (Exhausted_a y ys)
  then show ?case by simp
next
  case (Exhausted_b x xs)
  then show ?case by simp
next
  case (Aligned x xs y ys)
  consider "len x = len y" | "len y < len x" | "len x < len y" by linarith
  then show ?case
  proof cases
    case 1
    with Aligned.IH(1) Aligned.prems Aligned.hyps show ?thesis
      by (auto simp: transform_emit_aligned base_len_append lens_prime_piece
          target_len_Cons_len [of y ys] target_len_Cons_len [of x xs])
  next
    case 2
    with Aligned.IH(2) Aligned.prems Aligned.hyps show ?thesis
      by (auto simp: transform_emit_aligned base_len_append lens_prime_piece target_len_shorten
          target_len_Cons_len [of y ys] target_len_Cons_len [of x xs])
  next
    case 3
    with Aligned.IH(3) Aligned.prems Aligned.hyps show ?thesis
      by (auto simp: transform_emit_aligned base_len_append lens_prime_piece target_len_shorten
          target_len_Cons_len [of y ys] target_len_Cons_len [of x xs])
  qed
qed

lemma compose_call:
  assumes "nonzero A" "nonzero B" and "base_len A = length D" and "target_len A = base_len B"
  shows "\<exists>C. compose A B = Inr C \<and> call C D = Inr (effect B (effect A D))"
proof -
  from compose_emit_outcome [OF assms(1,2)] assms(4)
  obtain raw where raw: "compose_emit A B = Inr raw"
    by auto
  let ?C = "foldl append_op [] raw"
  have "base_len ?C = length D"
    using compose_emit_lens [OF raw] assms(3) by (simp add: base_len_foldl_append_op)
  then have "call ?C D = Inr (effect ?C D)"
    by (rule call_valid)
  moreover have "effect ?C D = effect B (effect A D)"
    using compose_emit_effect [OF raw, of D] assms(3) by (simp add: effect_foldl_append_op)
  moreover have "compose A B = Inr ?C"
    by (simp add: compose_eq raw)
  ultimately show ?thesis by simp
qed

lemma transform_primes:
  assumes "nonzero S1" "nonzero S2" and "base_len S1 = base_len S2"
  obtains ra rb where "transform_emit S1 S2 = Inr (ra, rb)"
    and "transform S1 S2 = Inr (foldl append_op [] ra, foldl append_op [] rb)"
    and "nonzero (foldl append_op [] ra)" and "nonzero (foldl append_op [] rb)"
    and "base_len (foldl append_op [] ra) = target_len S2"
    and "base_len (foldl append_op [] rb) = target_len S1"
proof -
  from transform_emit_succeeds [OF assms] obtain ra rb where e: "transform_emit S1 S2 = Inr (ra, rb)"
    by blast
  show thesis
  proof (rule that [OF e])
    show "transform S1 S2 = Inr (foldl append_op [] ra, foldl append_op [] rb)"
      by (simp add: transform_eq e)
    show "nonzero (foldl append_op [] ra)" "nonzero (foldl append_op [] rb)"
      by (simp_all add: nonzero_foldl_append_op)
    show "base_len (foldl append_op [] ra) = target_len S2"
      "base_len (foldl append_op [] rb) = target_len S1"
      using transform_emit_lens [OF e] by (simp_all add: base_len_foldl_append_op)
  qed
qed

subsection \<open>Composition: the states of the loop\<close>

lemma compose_run_while: "compose_run k s = Some s' \<Longrightarrow> compose_while s = compose_while s'"
proof (induction k arbitrary: s)
  case 0
  then show ?case by simp
next
  case (Suc k)
  then obtain s1 where b: "compose_body s = Inl s1" and r: "compose_run k s1 = Some s'"
    by (auto split: sum.splits)
  from Suc.IH [OF r] b show ?case
    by (subst compose_while.simps) simp
qed

lemma compose_while_ends:
  "\<exists>k s'. compose_run k s = Some s' \<and> compose_body s' = Inr (compose_while s)"
proof (induction s rule: compose_while.induct)
  case (1 s)
  show ?case
  proof (cases "compose_body s")
    case (Inl s1)
    from 1 [OF Inl] obtain k s' where
      "compose_run k s1 = Some s'" "compose_body s' = Inr (compose_while s1)"
      by blast
    with Inl have "compose_run (Suc k) s = Some s'" "compose_body s' = Inr (compose_while s)"
      by (simp_all add: compose_while.simps [of s])
    then show ?thesis by blast
  next
    case (Inr r)
    then have "compose_run 0 s = Some s" "compose_body s = Inr (compose_while s)"
      by (simp_all add: compose_while.simps [of s])
    then show ?thesis by blast
  qed
qed

lemma compose_body_rest:
  "compose_body s = compose_body (None, rest_a s, None, rest_b s, snd (snd (snd (snd s))))"
proof -
  obtain a ia b ib acc where s: "s = (a, ia, b, ib, acc)"
    by (cases s) auto
  show ?thesis
    unfolding s by (subst compose_body_pending) simp
qed

lemma compose_body_leaves:
  assumes "compose_body s = Inr r"
  shows "(r = Inl (IncompatibleOperationError First_too_short)
            \<and> rest_a s = [] \<and> (\<exists>y ys. rest_b s = y # ys \<and> \<not> is_Insert y))
       \<or> (r = Inl (IncompatibleOperationError First_too_long)
            \<and> rest_b s = [] \<and> (\<exists>x xs. rest_a s = x # xs \<and> \<not> is_Delete x))
       \<or> ((\<exists>C. r = Inr C) \<and> rest_a s = [] \<and> rest_b s = [])"
proof -
  let ?acc = "snd (snd (snd (snd s)))"
  from assms have b: "compose_body (None, rest_a s, None, rest_b s, ?acc) = Inr r"
    by (simp add: compose_body_rest [symmetric])
  show ?thesis
  proof (cases "rest_a s")
    case Nil
    show ?thesis
    proof (cases "rest_b s")
      case Nil
      with \<open>rest_a s = []\<close> b show ?thesis by (auto simp: compose_body.simps)
    next
      case (Cons y ys)
      show ?thesis
      proof (cases "is_Insert y")
        case True
        then obtain t where "y = Insert t" by (cases y) auto
        with b Cons Nil show ?thesis by (simp add: compose_body_Insert)
      next
        case False
        with b Cons Nil show ?thesis by (auto simp: compose_body_too_short)
      qed
    qed
  next
    case (Cons x xs)
    show ?thesis
    proof (cases "is_Delete x")
      case True
      then obtain n where "x = Delete n" by (cases x) auto
      with b Cons show ?thesis by (simp add: compose_body_Delete)
    next
      case nd: False
      show ?thesis
      proof (cases "rest_b s")
        case Nil
        with b Cons nd show ?thesis by (auto simp: compose_body_too_long)
      next
        case (Cons y ys)
        show ?thesis
        proof (cases "is_Insert y")
          case True
          then obtain t where "y = Insert t" by (cases y) auto
          with b Cons \<open>rest_a s = x # xs\<close> nd show ?thesis by (simp add: compose_body_Insert)
        next
          case False
          with b Cons \<open>rest_a s = x # xs\<close> nd show ?thesis by (simp add: compose_body_aligned)
        qed
      qed
    qed
  qed
qed

lemma compose_while_rest:
  "compose_while s = map_result (foldl append_op (snd (snd (snd (snd s))))) (compose_emit (rest_a s) (rest_b s))"
proof -
  obtain a ia b ib acc where s: "s = (a, ia, b, ib, acc)"
    by (cases s) auto
  show ?thesis
    unfolding s by (subst compose_while_pending) (simp add: compose_while_emit)
qed

lemma compose_emit_a_exhausted:
  "\<exists>y\<in>set ys. \<not> is_Insert y \<Longrightarrow> compose_emit [] ys = Inl (IncompatibleOperationError First_too_short)"
proof (induction ys)
  case Nil
  then show ?case by simp
next
  case (Cons y ys)
  then show ?case by (cases y) auto
qed

lemma compose_emit_b_exhausted:
  "\<exists>x\<in>set xs. \<not> is_Delete x \<Longrightarrow> compose_emit xs [] = Inl (IncompatibleOperationError First_too_long)"
proof (induction xs)
  case Nil
  then show ?case by simp
next
  case (Cons x xs)
  then show ?case by (cases x) auto
qed

lemma compose_reaches_while:
  "compose_reaches A B s \<Longrightarrow> compose A B = compose_while s"
  by (auto simp: compose_reaches_def compose_def dest: compose_run_while)

lemma compose_ends:
  "\<exists>s. compose_reaches A B s \<and> compose_body s = Inr (compose A B)"
proof -
  from compose_while_ends [of "(None, A, None, B, [])"] obtain k s where
    "compose_run k (None, A, None, B, []) = Some s" "compose_body s = Inr (compose A B)"
    unfolding compose_def by blast
  then have "compose_reaches A B s \<and> compose_body s = Inr (compose A B)"
    unfolding compose_reaches_def by blast
  then show ?thesis ..
qed

(*CLAIMS*)
subsection \<open>Lists outside the data model\<close>

text \<open>
  The constructor of \<^verbatim>\<open>TextOperation\<close> accepts a list with an element of length zero,
  which \<^verbatim>\<open>append\<close> never produces and the data model excludes. Such a list can be valid
  against a document and still make a traversal raise: \<open>transform\<close> reaches
  \<^verbatim>\<open>len(None)\<close>, \<open>compose\<close> finds one input exhausted before the other.
\<close>

lemma transform_zero_length:
  "valid [Retain 0] ([] :: char list) \<and> valid [] ([] :: char list)
   \<and> transform [Retain 0] ([] :: char op list) = Inl TypeError"
  by (simp add: valid_def transform_def transform_while.simps transform_body.simps)

lemma compose_zero_length:
  "valid [Retain 0] ([] :: char list) \<and> call [Retain 0] ([] :: char list) = Inr []
   \<and> valid [] ([] :: char list)
   \<and> compose [Retain 0] ([] :: char op list) = Inl (IncompatibleOperationError First_too_long)"
  by (simp add: valid_def call_def slice_def compose_def compose_while.simps compose_body.simps)

lemma transform_then_compose_zero_length:
  "valid [Insert []] ([] :: char list) \<and> valid [] ([] :: char list)
   \<and> transform [Insert []] ([] :: char op list) = Inr ([], [])
   \<and> compose [Insert []] ([] :: char op list) = Inl (IncompatibleOperationError First_too_long)"
  by (simp add: valid_def transform_def transform_while.simps transform_body.simps append_op_def
      compose_def compose_while.simps compose_body.simps)

section \<open>The claims\<close>

subsection \<open>C1: Transform convergence\<close>

text \<open>
  Claim C1: for a base document \<open>D\<close> and two sequences \<open>S1\<close>, \<open>S2\<close> valid against \<open>D\<close>,
  \<open>transform(S1, S2)\<close> returns a pair \<open>(S1', S2')\<close>, both \<open>compose(S1, S2')\<close> and
  \<open>compose(S2, S1')\<close> return a sequence, and applying either to \<open>D\<close> succeeds with the
  same document. The sequences are those of the data model, whose operations have a
  length of at least one.
\<close>

theorem transform_convergence:
  assumes "nonzero S1" "nonzero S2" and "valid S1 D" and "valid S2 D"
  shows "\<exists>S1' S2' C12 C21 R.
           transform S1 S2 = Inr (S1', S2')
           \<and> compose S1 S2' = Inr C12 \<and> compose S2 S1' = Inr C21
           \<and> call C12 D = Inr R \<and> call C21 D = Inr R"
proof -
  from assms(3,4) have b1: "base_len S1 = length D" and b2: "base_len S2 = length D"
    by (simp_all add: valid_def)
  from b1 b2 have "base_len S1 = base_len S2" by simp
  from transform_primes [OF assms(1,2) this] obtain ra rb where
    e: "transform_emit S1 S2 = Inr (ra, rb)"
    and t: "transform S1 S2 = Inr (foldl append_op [] ra, foldl append_op [] rb)"
    and n: "nonzero (foldl append_op [] ra)" "nonzero (foldl append_op [] rb)"
    and l: "base_len (foldl append_op [] ra) = target_len S2"
           "base_len (foldl append_op [] rb) = target_len S1"
    by blast
  from compose_call [OF assms(1) n(2) b1 l(2) [symmetric]] obtain C12 where
    c12: "compose S1 (foldl append_op [] rb) = Inr C12"
         "call C12 D = Inr (effect rb (effect S1 D))"
    by (auto simp: effect_foldl_append_op)
  from compose_call [OF assms(2) n(1) b2 l(1) [symmetric]] obtain C21 where
    c21: "compose S2 (foldl append_op [] ra) = Inr C21"
         "call C21 D = Inr (effect ra (effect S2 D))"
    by (auto simp: effect_foldl_append_op)
  from transform_emit_effect [OF e, of D] b1 b2
  have "effect rb (effect S1 D) = effect ra (effect S2 D)" by simp
  with t c12 c21 show ?thesis by auto
qed

theorem transform_convergence_witness:
  "nonzero [Insert ''X'', Retain 5] \<and> nonzero [Retain 5, Insert ''Y'']
   \<and> valid [Insert ''X'', Retain 5] ''hello'' \<and> valid [Retain 5, Insert ''Y''] ''hello''
   \<and> transform [Insert ''X'', Retain 5] [Retain 5, Insert ''Y'']
       = Inr ([Insert ''X'', Retain 6], [Retain 6, Insert ''Y''])
   \<and> compose [Insert ''X'', Retain 5] [Retain 6, Insert ''Y''] = Inr [Insert ''X'', Retain 5, Insert ''Y'']
   \<and> compose [Retain 5, Insert ''Y''] [Insert ''X'', Retain 6] = Inr [Insert ''X'', Retain 5, Insert ''Y'']
   \<and> call [Insert ''X'', Retain 5, Insert ''Y''] ''hello'' = Inr ''XhelloY''"
proof -
  have n1: "nonzero [Insert ''X'', Retain 5]" and n2: "nonzero [Retain 5, Insert ''Y'']"
    by simp_all
  have v1: "valid [Insert ''X'', Retain 5] ''hello''" and v2: "valid [Retain 5, Insert ''Y''] ''hello''"
    by (simp_all add: valid_def)
  have t: "transform [Insert ''X'', Retain 5] [Retain 5, Insert ''Y'']
           = Inr ([Insert ''X'', Retain 6], [Retain 6, Insert ''Y''])"
    by (simp add: transform_def transform_while.simps transform_body.simps append_op_def
        shorten_ops_def)
  have c12: "compose [Insert ''X'', Retain 5] [Retain 6, Insert ''Y'']
             = Inr [Insert ''X'', Retain 5, Insert ''Y'']"
    by (simp add: compose_def compose_while.simps compose_body.simps append_op_def shorten_ops_def)
  have c21: "compose [Retain 5, Insert ''Y''] [Insert ''X'', Retain 6]
             = Inr [Insert ''X'', Retain 5, Insert ''Y'']"
    by (simp add: compose_def compose_while.simps compose_body.simps append_op_def shorten_ops_def)
  from transform_convergence [OF n1 n2 v1 v2] t c12 c21
  obtain R where R: "call [Insert ''X'', Retain 5, Insert ''Y''] ''hello'' = Inr R"
    by auto
  then have "R = ''XhelloY''"
    by (simp add: call_def slice_def)
  with R n1 n2 v1 v2 t c12 c21 show ?thesis by (intro conjI) simp_all
qed

subsection \<open>C2: Invert round trip\<close>

text \<open>
  Claim C2: for a document \<open>D\<close> and a sequence \<open>S\<close> valid against \<open>D\<close>, applying
  \<open>S.invert(D)\<close> to the result of applying \<open>S\<close> to \<open>D\<close> gives \<open>D\<close> back: both
  applications and the inversion succeed, and the last result is \<open>D\<close>.
\<close>

theorem invert_round_trip:
  assumes "valid S D"
  shows "\<exists>D' inverse_S. call S D = Inr D' \<and> invert S D = Inr inverse_S \<and> call inverse_S D' = Inr D"
proof -
  let ?inv = "foldl append_op [] (invert_emit S D)"
  from assms have len: "base_len S = length D" by (simp add: valid_def)
  then have 1: "call S D = Inr (effect S D)" by (rule call_valid)
  have "base_len ?inv = length (effect S D)"
    using len by (simp add: base_len_foldl_append_op base_len_invert_emit length_effect)
  then have "call ?inv (effect S D) = Inr (effect ?inv (effect S D))" by (rule call_valid)
  then have 2: "call ?inv (effect S D) = Inr D"
    using len by (simp add: effect_foldl_append_op effect_invert_emit)
  from 1 2 show ?thesis by (auto simp: invert_eq)
qed

theorem invert_round_trip_witness:
  "valid [Retain 2, Insert ''xy'', Delete 3] ''hello''
   \<and> call [Retain 2, Insert ''xy'', Delete 3] ''hello'' = Inr ''hexy''
   \<and> invert [Retain 2, Insert ''xy'', Delete 3] ''hello'' = Inr [Retain 2, Delete 2, Insert ''llo'']
   \<and> call [Retain 2, Delete 2, Insert ''llo''] ''hexy'' = Inr ''hello''"
proof -
  have v: "valid [Retain 2, Insert ''xy'', Delete 3] ''hello''"
    by (simp add: valid_def)
  have c: "call [Retain 2, Insert ''xy'', Delete 3] ''hello'' = Inr ''hexy''"
    by (simp add: call_def slice_def)
  have i: "invert [Retain 2, Insert ''xy'', Delete 3] ''hello'' = Inr [Retain 2, Delete 2, Insert ''llo'']"
    by (simp add: invert_def append_op_def slice_def)
  from invert_round_trip [OF v] c i
  have "call [Retain 2, Delete 2, Insert ''llo''] ''hexy'' = Inr ''hello''"
    by auto
  with v c i show ?thesis by (intro conjI)
qed

subsection \<open>C3: Compose equivalence\<close>

text \<open>
  Claim C3: for a document \<open>D\<close>, a sequence \<open>S1\<close> valid against \<open>D\<close> and a sequence
  \<open>S2\<close> valid against the result \<open>D1\<close> of applying \<open>S1\<close> to \<open>D\<close>, \<open>compose(S1, S2)\<close>
  returns a sequence, and applying it to \<open>D\<close> gives the document that applying \<open>S2\<close> to
  \<open>D1\<close> gives. The sequences are those of the data model, whose operations have a
  length of at least one.
\<close>

theorem compose_equivalence:
  assumes "nonzero S1" "nonzero S2" and "valid S1 D" and "call S1 D = Inr D1" and "valid S2 D1"
  shows "\<exists>S12 D2. compose S1 S2 = Inr S12 \<and> call S2 D1 = Inr D2 \<and> call S12 D = Inr D2"
proof -
  from assms(3,4) have D1: "D1 = effect S1 D" and b1: "base_len S1 = length D"
    by (simp_all add: call_Inr_iff valid_def)
  from assms(5) b1 have "target_len S1 = base_len S2"
    by (simp add: valid_def D1 length_effect)
  with compose_emit_outcome [OF assms(1,2)] obtain raw where raw: "compose_emit S1 S2 = Inr raw"
    by auto
  let ?S12 = "foldl append_op [] raw"
  have 1: "compose S1 S2 = Inr ?S12"
    by (simp add: compose_eq raw)
  have 2: "call S2 D1 = Inr (effect S2 D1)"
    using assms(5) by (simp add: call_valid valid_def)
  have "base_len ?S12 = length D"
    using compose_emit_lens [OF raw] b1 by (simp add: base_len_foldl_append_op)
  then have "call ?S12 D = Inr (effect ?S12 D)"
    by (rule call_valid)
  also have "effect ?S12 D = effect S2 D1"
    using compose_emit_effect [OF raw, of D] b1 by (simp add: effect_foldl_append_op D1)
  finally show ?thesis using 1 2 by blast
qed

theorem compose_equivalence_witness:
  "nonzero [Retain 2, Delete 3 :: char op] \<and> nonzero [Retain 2, Insert ''!'']
   \<and> valid [Retain 2, Delete 3] ''hello''
   \<and> call [Retain 2, Delete 3] ''hello'' = Inr ''he''
   \<and> valid [Retain 2, Insert ''!''] ''he''
   \<and> compose [Retain 2, Delete 3] [Retain 2, Insert ''!''] = Inr [Retain 2, Delete 3, Insert ''!'']
   \<and> call [Retain 2, Insert ''!''] ''he'' = Inr ''he!''
   \<and> call [Retain 2, Delete 3, Insert ''!''] ''hello'' = Inr ''he!''"
proof -
  have n1: "nonzero [Retain 2, Delete 3 :: char op]" and n2: "nonzero [Retain 2, Insert ''!'']"
    by simp_all
  have v1: "valid [Retain 2, Delete 3] ''hello''" and v2: "valid [Retain 2, Insert ''!''] ''he''"
    by (simp_all add: valid_def)
  have c1: "call [Retain 2, Delete 3] ''hello'' = Inr ''he''"
    by (simp add: call_def slice_def)
  have c: "compose [Retain 2, Delete 3] [Retain 2, Insert ''!''] = Inr [Retain 2, Delete 3, Insert ''!'']"
    by (simp add: compose_def compose_while.simps compose_body.simps append_op_def shorten_ops_def)
  have c2: "call [Retain 2, Insert ''!''] ''he'' = Inr ''he!''"
    by (simp add: call_def slice_def)
  from compose_equivalence [OF n1 n2 v1 c1 v2] c c2
  have "call [Retain 2, Delete 3, Insert ''!''] ''hello'' = Inr ''he!''"
    by auto
  with n1 n2 v1 c1 v2 c c2 show ?thesis by (intro conjI)
qed

subsection \<open>C4: Length accounting\<close>

text \<open>
  Claim C4: whenever applying a sequence \<open>S\<close> to a document \<open>D\<close> succeeds, the length
  of the output is the length of \<open>D\<close> plus \<open>S.len_difference()\<close>, the sum of the length
  differences of the operations of \<open>S\<close>.
\<close>

theorem length_accounting:
  "call S D = Inr out \<Longrightarrow> int (length out) = int (length D) + len_difference S"
  by (simp add: call_Inr_iff length_effect len_difference_lens)

theorem length_accounting_witness:
  "call [Retain 2, Insert ''xy'', Delete 3] ''hello'' = Inr ''hexy''
   \<and> int (length ''hexy'') = int (length ''hello'') + len_difference [Retain 2, Insert ''xy'', Delete 3]"
proof -
  have h: "call [Retain 2, Insert ''xy'', Delete 3] ''hello'' = Inr ''hexy''"
    by (simp add: call_def slice_def)
  from h length_accounting [OF h] show ?thesis by (rule conjI)
qed

subsection \<open>C5: Transform tie-break\<close>

text \<open>
  Claim C5: when both inputs start with an \<^verbatim>\<open>Insert\<close>, \<open>A\<close> with the text \<open>s\<close> (all that
  \<open>A\<close> inserts there: its next element is not an \<^verbatim>\<open>Insert\<close>) and \<open>B\<close> with the text \<open>t\<close>,
  the converged document \<open>compose(A, B')(D)\<close> starts with \<open>s\<close> followed by \<open>t\<close>. For
  \<^verbatim>\<open>[Insert("1"), Retain(2)]\<close> and \<^verbatim>\<open>[Insert("2"), Retain(2)]\<close> on \<^verbatim>\<open>"ab"\<close> it is
  \<^verbatim>\<open>"12ab"\<close>.
\<close>

theorem transform_tie_break:
  assumes "nonzero (Insert s # A)" "nonzero (Insert t # B)"
    and "valid (Insert s # A) D" and "valid (Insert t # B) D"
    and "\<not> starts_with_Insert A"
  shows "\<exists>A' B' C rest.
           transform (Insert s # A) (Insert t # B) = Inr (A', B')
           \<and> compose (Insert s # A) B' = Inr C
           \<and> call C D = Inr (s @ t @ rest)"
proof -
  let ?A = "Insert s # A" and ?B = "Insert t # B"
  from assms(3,4) have b1: "base_len ?A = length D" and b2: "base_len ?B = length D"
    by (simp_all add: valid_def)
  from b1 b2 have "base_len ?A = base_len ?B" by simp
  from transform_primes [OF assms(1,2) this] obtain ra rb where
    e: "transform_emit ?A ?B = Inr (ra, rb)"
    and t: "transform ?A ?B = Inr (foldl append_op [] ra, foldl append_op [] rb)"
    and n: "nonzero (foldl append_op [] rb)"
    and l: "base_len (foldl append_op [] rb) = target_len ?A"
    by blast
  from assms(5) have hd: "A = [] \<or> \<not> is_Insert (hd A)"
    by (cases A rule: starts_with_Insert.cases) simp_all
  from e hd obtain rb' where rb: "rb = Retain (length s) # Insert t # rb'"
    by auto
  from compose_call [OF assms(1) n b1 l [symmetric]] obtain C where
    c: "compose ?A (foldl append_op [] rb) = Inr C" "call C D = Inr (effect rb (effect ?A D))"
    by (auto simp: effect_foldl_append_op)
  have "effect rb (effect ?A D) = s @ t @ effect rb' (effect A D)"
    by (simp add: rb)
  with t c show ?thesis by auto
qed

theorem transform_tie_break_witness:
  "nonzero [Insert ''1'', Retain 2] \<and> nonzero [Insert ''2'', Retain 2]
   \<and> valid [Insert ''1'', Retain 2] ''ab'' \<and> valid [Insert ''2'', Retain 2] ''ab''
   \<and> \<not> starts_with_Insert [Retain 2 :: char op]
   \<and> transform [Insert ''1'', Retain 2] [Insert ''2'', Retain 2]
       = Inr ([Insert ''1'', Retain 3], [Retain 1, Insert ''2'', Retain 2])
   \<and> compose [Insert ''1'', Retain 2] [Retain 1, Insert ''2'', Retain 2] = Inr [Insert ''12'', Retain 2]
   \<and> call [Insert ''12'', Retain 2] ''ab'' = Inr ''12ab''"
proof -
  have n1: "nonzero [Insert ''1'', Retain 2]" and n2: "nonzero [Insert ''2'', Retain 2]"
    by simp_all
  have v1: "valid [Insert ''1'', Retain 2] ''ab''" and v2: "valid [Insert ''2'', Retain 2] ''ab''"
    by (simp_all add: valid_def)
  have h: "\<not> starts_with_Insert [Retain 2 :: char op]"
    by simp
  have t: "transform [Insert ''1'', Retain 2] [Insert ''2'', Retain 2]
           = Inr ([Insert ''1'', Retain 3], [Retain 1, Insert ''2'', Retain 2])"
    by (simp add: transform_def transform_while.simps transform_body.simps append_op_def
        shorten_ops_def)
  have c: "compose [Insert ''1'', Retain 2] [Retain 1, Insert ''2'', Retain 2]
           = Inr [Insert ''12'', Retain 2]"
    by (simp add: compose_def compose_while.simps compose_body.simps append_op_def shorten_ops_def)
  from transform_tie_break [OF n1 n2 v1 v2 h] t c
  obtain rest where R: "call [Insert ''12'', Retain 2] ''ab'' = Inr (''1'' @ ''2'' @ rest)"
    by auto
  then have "rest = ''ab''"
    by (simp add: call_def slice_def)
  with R n1 n2 v1 v2 h t c show ?thesis by (intro conjI) simp_all
qed

subsection \<open>C6: The errors of \<open>call\<close>\<close>

text \<open>
  Claim C6 says that applying a sequence raises \<^verbatim>\<open>IncompatibleOperationError\<close> and no other
  kind of error when the lengths do not align. On \<^verbatim>\<open>[Retain(10)]\<close> and \<^verbatim>\<open>"hi"\<close> the
  \<^verbatim>\<open>Retain\<close> branch raises a plain \<^verbatim>\<open>Exception\<close>; the \<^verbatim>\<open>Delete\<close> branch, with the same
  test and the same message, raises \<^verbatim>\<open>IncompatibleOperationError\<close>.
\<close>

theorem call_retain_too_long_plain_exception:
  "call [Retain 10] ''hi'' = Inl (Exception Operation_too_long)
   \<and> call [Delete 10] ''hi'' = Inl (IncompatibleOperationError Operation_too_long)"
  by (simp add: call_def)

subsection \<open>C7: The errors of \<open>compose\<close>\<close>

text \<open>
  Claim C7: \<open>compose\<close> raises \<^verbatim>\<open>IncompatibleOperationError\<close> "first operation is too short"
  exactly when the traversal reaches a state in which \<open>A\<close> is exhausted and \<open>B\<close> still
  has an element that is not an \<^verbatim>\<open>Insert\<close>, and "first operation is too long" exactly
  when it reaches a state in which \<open>B\<close> is exhausted and \<open>A\<close> still has an element that
  is not a \<^verbatim>\<open>Delete\<close>; it returns exactly when it reaches a state in which both are
  exhausted; it raises nothing else; and it returns whenever \<open>B\<close> is valid against the
  output of \<open>A\<close>, for sequences of the data model, whose operations have a length of
  at least one.
\<close>

theorem compose_error_handling:
  "(compose A B = Inl (IncompatibleOperationError First_too_short)
      \<longleftrightarrow> (\<exists>s. compose_reaches A B s \<and> rest_a s = [] \<and> (\<exists>y\<in>set (rest_b s). \<not> is_Insert y)))
   \<and> (compose A B = Inl (IncompatibleOperationError First_too_long)
      \<longleftrightarrow> (\<exists>s. compose_reaches A B s \<and> rest_b s = [] \<and> (\<exists>x\<in>set (rest_a s). \<not> is_Delete x)))
   \<and> ((\<exists>C. compose A B = Inr C)
      \<longleftrightarrow> (\<exists>s. compose_reaches A B s \<and> rest_a s = [] \<and> rest_b s = []))
   \<and> (\<forall>e. compose A B = Inl e \<longrightarrow>
        e = IncompatibleOperationError First_too_short
        \<or> e = IncompatibleOperationError First_too_long)
   \<and> (nonzero A \<and> nonzero B \<and> valid A D \<and> call A D = Inr D1 \<and> valid B D1
      \<longrightarrow> (\<exists>C. compose A B = Inr C))"
proof (intro conjI iffI impI allI)
  assume "compose A B = Inl (IncompatibleOperationError First_too_short)"
  with compose_ends [of A B] obtain s where
    "compose_reaches A B s" "compose_body s = Inr (Inl (IncompatibleOperationError First_too_short))"
    by auto
  with compose_body_leaves [OF this(2)]
  have "compose_reaches A B s \<and> rest_a s = [] \<and> (\<exists>y\<in>set (rest_b s). \<not> is_Insert y)"
    by auto
  then show "\<exists>s. compose_reaches A B s \<and> rest_a s = [] \<and> (\<exists>y\<in>set (rest_b s). \<not> is_Insert y)" ..
next
  assume "\<exists>s. compose_reaches A B s \<and> rest_a s = [] \<and> (\<exists>y\<in>set (rest_b s). \<not> is_Insert y)"
  then obtain s where s: "compose_reaches A B s" "rest_a s = []" "\<exists>y\<in>set (rest_b s). \<not> is_Insert y"
    by blast
  show "compose A B = Inl (IncompatibleOperationError First_too_short)"
    unfolding compose_reaches_while [OF s(1)] compose_while_rest [of s]
    by (simp add: s(2) compose_emit_a_exhausted [OF s(3)])
next
  assume "compose A B = Inl (IncompatibleOperationError First_too_long)"
  with compose_ends [of A B] obtain s where
    "compose_reaches A B s" "compose_body s = Inr (Inl (IncompatibleOperationError First_too_long))"
    by auto
  with compose_body_leaves [OF this(2)]
  have "compose_reaches A B s \<and> rest_b s = [] \<and> (\<exists>x\<in>set (rest_a s). \<not> is_Delete x)"
    by auto
  then show "\<exists>s. compose_reaches A B s \<and> rest_b s = [] \<and> (\<exists>x\<in>set (rest_a s). \<not> is_Delete x)" ..
next
  assume "\<exists>s. compose_reaches A B s \<and> rest_b s = [] \<and> (\<exists>x\<in>set (rest_a s). \<not> is_Delete x)"
  then obtain s where s: "compose_reaches A B s" "rest_b s = []" "\<exists>x\<in>set (rest_a s). \<not> is_Delete x"
    by blast
  show "compose A B = Inl (IncompatibleOperationError First_too_long)"
    unfolding compose_reaches_while [OF s(1)] compose_while_rest [of s]
    by (simp add: s(2) compose_emit_b_exhausted [OF s(3)])
next
  assume "\<exists>C. compose A B = Inr C"
  then obtain C where "compose A B = Inr C" ..
  with compose_ends [of A B] obtain s where
    "compose_reaches A B s" "compose_body s = Inr (Inr C)"
    by auto
  with compose_body_leaves [OF this(2)]
  have "compose_reaches A B s \<and> rest_a s = [] \<and> rest_b s = []"
    by auto
  then show "\<exists>s. compose_reaches A B s \<and> rest_a s = [] \<and> rest_b s = []" ..
next
  assume "\<exists>s. compose_reaches A B s \<and> rest_a s = [] \<and> rest_b s = []"
  then obtain s where s: "compose_reaches A B s" "rest_a s = []" "rest_b s = []"
    by blast
  show "\<exists>C. compose A B = Inr C"
    unfolding compose_reaches_while [OF s(1)] compose_while_rest [of s]
    by (simp add: s(2,3))
next
  fix e
  assume "compose A B = Inl e"
  with compose_ends [of A B] obtain s where
    "compose_reaches A B s" "compose_body s = Inr (Inl e)"
    by auto
  from compose_body_leaves [OF this(2)]
  show "e = IncompatibleOperationError First_too_short
        \<or> e = IncompatibleOperationError First_too_long"
    by auto
next
  assume "nonzero A \<and> nonzero B \<and> valid A D \<and> call A D = Inr D1 \<and> valid B D1"
  then have n: "nonzero A" "nonzero B" and "base_len A = length D" "D1 = effect A D"
    "base_len B = length D1"
    by (simp_all add: valid_def call_Inr_iff)
  then have "target_len A = base_len B"
    by (simp add: length_effect)
  with compose_emit_outcome [OF n] show "\<exists>C. compose A B = Inr C"
    by (auto simp: compose_eq)
qed

theorem compose_error_handling_witness:
  "compose_reaches [Retain 1] [Retain 2 :: char op] (None, [], Some (Retain 1), [], [Retain 1])
   \<and> compose [Retain 1] [Retain 2 :: char op] = Inl (IncompatibleOperationError First_too_short)
   \<and> compose_reaches [Retain 2] [Retain 1 :: char op] (Some (Retain 1), [], None, [], [Retain 1])
   \<and> compose [Retain 2] [Retain 1 :: char op] = Inl (IncompatibleOperationError First_too_long)
   \<and> nonzero [Retain 2, Delete 3 :: char op] \<and> nonzero [Retain 2, Insert ''!'']
   \<and> valid [Retain 2, Delete 3] ''hello''
   \<and> call [Retain 2, Delete 3] ''hello'' = Inr ''he''
   \<and> valid [Retain 2, Insert ''!''] ''he''
   \<and> (\<exists>s. compose_reaches [Retain 2, Delete 3] [Retain 2, Insert ''!''] s
            \<and> rest_a s = [] \<and> rest_b s = [])"
proof -
  let ?s1 = "(None, [], Some (Retain 1), [], [Retain 1]) :: char compose_state"
  let ?s2 = "(Some (Retain 1), [], None, [], [Retain 1]) :: char compose_state"
  have "compose_run (Suc 0) (None, [Retain 1], None, [Retain 2], []) = Some ?s1"
    by (simp add: compose_body.simps append_op_def shorten_ops_def)
  then have r1: "compose_reaches [Retain 1] [Retain 2] ?s1"
    unfolding compose_reaches_def by (rule exI)
  then have "compose_reaches [Retain 1] [Retain 2] ?s1 \<and> rest_a ?s1 = []
      \<and> (\<exists>y\<in>set (rest_b ?s1). \<not> is_Insert y)"
    by simp
  then have "\<exists>s :: char compose_state. compose_reaches [Retain 1] [Retain 2] s \<and> rest_a s = []
      \<and> (\<exists>y\<in>set (rest_b s). \<not> is_Insert y)" ..
  with compose_error_handling [of "[Retain 1]" "[Retain 2 :: char op]"]
  have e1: "compose [Retain 1] [Retain 2 :: char op] = Inl (IncompatibleOperationError First_too_short)"
    by blast
  have "compose_run (Suc 0) (None, [Retain 2], None, [Retain 1], []) = Some ?s2"
    by (simp add: compose_body.simps append_op_def shorten_ops_def)
  then have r2: "compose_reaches [Retain 2] [Retain 1] ?s2"
    unfolding compose_reaches_def by (rule exI)
  then have "compose_reaches [Retain 2] [Retain 1] ?s2 \<and> rest_b ?s2 = []
      \<and> (\<exists>x\<in>set (rest_a ?s2). \<not> is_Delete x)"
    by simp
  then have "\<exists>s :: char compose_state. compose_reaches [Retain 2] [Retain 1] s \<and> rest_b s = []
      \<and> (\<exists>x\<in>set (rest_a s). \<not> is_Delete x)" ..
  with compose_error_handling [of "[Retain 2]" "[Retain 1 :: char op]"]
  have e2: "compose [Retain 2] [Retain 1 :: char op] = Inl (IncompatibleOperationError First_too_long)"
    by blast
  have n: "nonzero [Retain 2, Delete 3 :: char op]" "nonzero [Retain 2, Insert ''!'']"
    by simp_all
  have v: "valid [Retain 2, Delete 3] ''hello''" "valid [Retain 2, Insert ''!''] ''he''"
    by (simp_all add: valid_def)
  have c: "call [Retain 2, Delete 3] ''hello'' = Inr ''he''"
    by (simp add: call_def slice_def)
  from compose_error_handling [of "[Retain 2, Delete 3]" "[Retain 2, Insert ''!'']" "''hello''" "''he''"]
    n v c
  have e3: "\<exists>s. compose_reaches [Retain 2, Delete 3] [Retain 2, Insert ''!''] s
            \<and> rest_a s = [] \<and> rest_b s = []"
    by blast
  from r1 e1 r2 e2 n v(1) c v(2) e3 show ?thesis by (intro conjI)
qed

subsection \<open>C8: Append keeps the normal form\<close>

text \<open>
  Claim C8: for a sequence \<open>S\<close> built from the empty sequence by calls of \<^verbatim>\<open>append\<close>,
  appending an operation of length zero leaves \<open>S\<close> unchanged; appending an operation of
  the class of the last element replaces that element by the merge of the two; \<open>S\<close> and
  the sequence after the call have no two adjacent elements of the same class; and the
  length of a merged element is the sum of the lengths of the two operations.
\<close>

theorem append_keeps_normal_form:
  assumes "S = foldl append_op [] ops"
  shows "(len op = 0 \<longrightarrow> append_op S op = S)
    \<and> (S \<noteq> [] \<and> same_class (last S) op \<longrightarrow> append_op S op = butlast S @ [merge (last S) op])
    \<and> normal_form S \<and> normal_form (append_op S op)
    \<and> (\<forall>x. same_class x op \<longrightarrow> len (merge x op) = len x + len op)"
proof -
  have nf: "normal_form S"
    unfolding assms by (rule normal_form_foldl_append_op) simp
  have zero: "len op = 0 \<longrightarrow> append_op S op = S"
    by (simp add: append_op_def)
  have same: "append_op S op = butlast S @ [merge (last S) op]"
    if "S \<noteq> []" "same_class (last S) op"
  proof (cases "len op = 0")
    case True
    with that(2) have "merge (last S) op = last S"
      by (cases "last S"; cases op) auto
    with True that(1) show ?thesis by (simp add: append_op_def)
  next
    case False
    with that show ?thesis by (simp add: append_op_def)
  qed
  from nf zero same show ?thesis
    by (simp add: normal_form_append_op same_class_merge)
qed

theorem append_keeps_normal_form_witness:
  "append_op [Retain 1, Insert ''a''] (Insert ''b'') = [Retain 1, Insert ''ab'']
   \<and> normal_form (append_op [Retain 1, Insert ''a''] (Insert ''b''))
   \<and> len (merge (Insert ''a'') (Insert ''b'')) = 2"
proof -
  have S: "[Retain 1, Insert ''a''] = foldl append_op [] [Retain 1, Insert ''a'']"
    by (simp add: append_op_def)
  note c = append_keeps_normal_form [OF S, of "Insert ''b''"]
  from c have 1: "append_op [Retain 1, Insert ''a''] (Insert ''b'') = [Retain 1, Insert ''ab'']"
    by simp
  from c have 2: "normal_form (append_op [Retain 1, Insert ''a''] (Insert ''b''))"
    by (elim conjE)
  from c have "same_class (Insert ''a'') (Insert ''b'')
      \<longrightarrow> len (merge (Insert ''a'') (Insert ''b'')) = len (Insert ''a'') + len (Insert ''b'')"
    by (elim conjE allE)
  then have 3: "len (merge (Insert ''a'') (Insert ''b'')) = 2" by simp
  from 1 2 3 show ?thesis by (intro conjI)
qed

subsection \<open>C9: \<open>invert\<close> past the end of the document\<close>

text \<open>
  Claim C9 says that \<open>invert\<close> raises the length error whenever the sequence reads past
  the end of the document. The method has no length check and its slice is clamped: on
  \<^verbatim>\<open>[Delete(3)]\<close> and \<^verbatim>\<open>"a"\<close> it returns \<^verbatim>\<open>[Insert("a")]\<close>.
\<close>

theorem invert_past_end_counterexample:
  "length ''a'' < base_len [Delete 3 :: char op]
   \<and> invert [Delete 3] ''a'' = Inr [Insert ''a'']"
  by (simp add: invert_def append_op_def slice_def)

text \<open>
  Claim C9 as amended: when the \<^verbatim>\<open>Retain\<close> and \<^verbatim>\<open>Delete\<close> lengths of \<open>S\<close> together exceed
  the length of \<open>D\<close>, \<open>invert\<close> raises nothing. It returns the sequence that \<^verbatim>\<open>append\<close>
  builds from the inverses of the operations of \<open>S\<close>, in order, each read at its cursor:
  the text of a \<^verbatim>\<open>Delete(n)\<close> at the cursor \<open>i\<close> is the slice \<^verbatim>\<open>D[i:i+n]\<close>, clamped to the
  end of \<open>D\<close>, of length \<open>min n (len(D) - i)\<close> and empty when the cursor is past the end.
  The source length of the result is the output length of \<open>S\<close>, and the too-long error for these lengths is raised when \<open>S\<close>
  itself is applied to \<open>D\<close>. The counts are those Python's \<^verbatim>\<open>len\<close> accepts: not negative
  and within the index type.
\<close>

theorem invert_reads_past_end:
  assumes "length D < base_len S"
  shows "invert S D
           = Inr (foldl append_op [] (map (\<lambda>k. inverse_op D (cursor S k) (S ! k)) [0..<length S]))
       \<and> (\<forall>i n. length (slice D i (i + n)) = min n (length D - i))
       \<and> (\<exists>inverse_S. invert S D = Inr inverse_S \<and> base_len inverse_S = target_len S)
       \<and> (call S D = Inl (Exception Operation_too_long)
           \<or> call S D = Inl (IncompatibleOperationError Operation_too_long))"
proof (intro conjI allI)
  show "invert S D
      = Inr (foldl append_op [] (map (\<lambda>k. inverse_op D (cursor S k) (S ! k)) [0..<length S]))"
    by (rule invert_positions)
  show "length (slice D i (i + n)) = min n (length D - i)" for i n
    by (rule length_slice)
  show "\<exists>inverse_S. invert S D = Inr inverse_S \<and> base_len inverse_S = target_len S"
    by (simp add: invert_eq base_len_foldl_append_op base_len_invert_emit)
  show "call S D = Inl (Exception Operation_too_long)
      \<or> call S D = Inl (IncompatibleOperationError Operation_too_long)"
    by (rule call_too_long [OF assms])
qed

theorem invert_reads_past_end_witness:
  "length ''ab'' < base_len [Retain 1, Delete 3 :: char op]
   \<and> cursor [Retain 1, Delete 3 :: char op] 1 = 1
   \<and> inverse_op ''ab'' 1 (Delete 3) = Insert ''b''
   \<and> invert [Retain 1, Delete 3] ''ab'' = Inr [Retain 1, Insert ''b'']
   \<and> base_len [Retain 1, Insert ''b''] = target_len [Retain 1, Delete 3 :: char op]
   \<and> call [Retain 1, Delete 3] ''ab'' = Inl (IncompatibleOperationError Operation_too_long)"
proof -
  let ?S = "[Retain 1, Delete 3] :: char op list"
  have l: "length ''ab'' < base_len ?S"
    by simp
  have k: "cursor ?S 1 = 1"
    by (simp add: cursor_def)
  have o: "inverse_op ''ab'' 1 (Delete 3) = Insert ''b''"
    by (simp add: slice_def)
  note t = invert_reads_past_end [OF l]
  from t have "invert ?S ''ab''
      = Inr (foldl append_op []
          (map (\<lambda>k. inverse_op ''ab'' (cursor ?S k) (?S ! k)) [0..<length ?S]))"
    by (rule conjunct1)
  then have i: "invert ?S ''ab'' = Inr [Retain 1, Insert ''b'']"
    by (simp add: cursor_def slice_def append_op_def)
  from t i have b: "base_len [Retain 1, Insert ''b''] = target_len ?S"
    by auto
  have c: "call ?S ''ab'' = Inl (IncompatibleOperationError Operation_too_long)"
    by (simp add: call_def)
  from l k o i b c show ?thesis by (intro conjI)
qed

subsection \<open>C10: \<open>invert\<close> negates the length difference\<close>

text \<open>
  Claim C10: for a document \<open>D\<close> and a sequence \<open>S\<close> valid against \<open>D\<close>, the length
  difference of \<open>S.invert(D)\<close> is the negation of the length difference of \<open>S\<close>.
\<close>

theorem invert_negates_len_difference:
  assumes "valid S D"
  shows "\<exists>inverse_S. invert S D = Inr inverse_S \<and> len_difference inverse_S = - len_difference S"
proof -
  have "len_difference ([] :: 'a text_operation) = 0" by (simp add: len_difference_def)
  with assms show ?thesis
    by (simp add: valid_def invert_eq len_difference_foldl_append_op len_difference_invert_emit)
qed

theorem invert_negates_len_difference_witness:
  "valid [Retain 2, Insert ''xy'', Delete 3] ''hello''
   \<and> invert [Retain 2, Insert ''xy'', Delete 3] ''hello'' = Inr [Retain 2, Delete 2, Insert ''llo'']
   \<and> len_difference [Retain 2, Delete 2, Insert ''llo''] = 1
   \<and> len_difference [Retain 2, Insert ''xy'', Delete 3] = - 1"
proof -
  have v: "valid [Retain 2, Insert ''xy'', Delete 3] ''hello''"
    by (simp add: valid_def)
  have i: "invert [Retain 2, Insert ''xy'', Delete 3] ''hello'' = Inr [Retain 2, Delete 2, Insert ''llo'']"
    by (simp add: invert_def append_op_def slice_def)
  have d: "len_difference [Retain 2, Insert ''xy'', Delete 3] = - 1"
    by (simp add: len_difference_def)
  from invert_negates_len_difference [OF v] i d
  have "len_difference [Retain 2, Delete 2, Insert ''llo''] = 1"
    by auto
  with v i d show ?thesis by (intro conjI)
qed

end
